(* ===== verification/Prelude.thy ===== *)
theory Prelude
  imports Main "HOL-Library.Word" "HOL-Library.AList"
begin

text \<open>
  Shared vocabulary of the development.

  \<^item> Machine types: \<open>u64\<close> is a 64 bit word, so the wrap-around of the source's
    atomic counters (\<open>AtomicU64::fetch_add\<close>) is the wrap-around of \<open>+\<close> on words.
    \<open>f64\<close> is the 64 bit pattern of a double: the modelled code stores and forwards
    floating point values and never computes with them.
  \<^item> \<open>json\<close> is \<open>serde_json::Value\<close>.
  \<^item> \<open>('k, 'v) hmap\<close> is \<open>std::collections::HashMap\<close>: an association list whose keys
    are distinct, read with \<open>hget\<close>, written with \<open>hput\<close> (the value of an existing key is
    replaced where it stands) and \<open>hdel\<close>. The iteration order of the source's maps is
    unspecified; the list order is one of the orders it may have.
  \<^item> The locale \<open>dictionary\<close> states the laws the components use of a map; it is
    interpreted on \<open>hmap\<close> at the end of the theory.
  \<^item> The locale \<open>transition_system\<close> is the induction principle every state machine
    of the development is proved with.
\<close>

section \<open>Machine types and values\<close>

type_synonym u64 = "64 word"
type_synonym f64 = "64 word"

datatype json =
    JNull
  | JBool bool
  | JInt int
  | JFloat f64
  | JString string
  | JArray "json list"
  | JObject "(string \<times> json) list"

named_theorems hmap_simps \<open>lookup laws of the dictionary operations\<close>
named_theorems preserved \<open>preservation rules of the engine monad\<close>

section \<open>Hash maps\<close>

type_synonym ('k, 'v) hmap = "('k \<times> 'v) list"

abbreviation hget :: "('k, 'v) hmap \<Rightarrow> 'k \<Rightarrow> 'v option" where
  "hget m k \<equiv> map_of m k"

abbreviation hput :: "'k \<Rightarrow> 'v \<Rightarrow> ('k, 'v) hmap \<Rightarrow> ('k, 'v) hmap" where
  "hput k v m \<equiv> AList.update k v m"

abbreviation hdel :: "'k \<Rightarrow> ('k, 'v) hmap \<Rightarrow> ('k, 'v) hmap" where
  "hdel k m \<equiv> AList.delete k m"

abbreviation hkeys :: "('k, 'v) hmap \<Rightarrow> 'k list" where
  "hkeys m \<equiv> map fst m"

abbreviation hvalues :: "('k, 'v) hmap \<Rightarrow> 'v list" where
  "hvalues m \<equiv> map snd m"

definition hmem :: "'k \<Rightarrow> ('k, 'v) hmap \<Rightarrow> bool" where
  "hmem k m = (hget m k \<noteq> None)"

text \<open>\<open>HashMap::extend\<close> (and a loop of \<open>insert\<close>): later entries win.\<close>

definition hextend :: "('k, 'v) hmap \<Rightarrow> ('k \<times> 'v) list \<Rightarrow> ('k, 'v) hmap" where
  "hextend m kvs = fold (\<lambda>(k, v). hput k v) kvs m"

text \<open>\<open>entry(k).or_default().push(v)\<close> and \<open>entry(k).or_default().extend(vs)\<close>.\<close>

definition hpush :: "'k \<Rightarrow> 'v \<Rightarrow> ('k, 'v list) hmap \<Rightarrow> ('k, 'v list) hmap" where
  "hpush k v m = hput k ((case hget m k of None \<Rightarrow> [] | Some vs \<Rightarrow> vs) @ [v]) m"

definition happend :: "'k \<Rightarrow> 'v list \<Rightarrow> ('k, 'v list) hmap \<Rightarrow> ('k, 'v list) hmap" where
  "happend k ws m = hput k ((case hget m k of None \<Rightarrow> [] | Some vs \<Rightarrow> vs) @ ws) m"

definition hwf :: "('k, 'v) hmap \<Rightarrow> bool" where
  "hwf m = distinct (hkeys m)"

definition hmap_values :: "('v \<Rightarrow> 'w) \<Rightarrow> ('k, 'v) hmap \<Rightarrow> ('k, 'w) hmap" where
  "hmap_values f m = map (\<lambda>(k, v). (k, f v)) m"

lemma hget_hput [simp, hmap_simps]: "hget (hput k v m) k' = (if k' = k then Some v else hget m k')"
  by (simp add: update_conv')

lemma hget_hdel [simp, hmap_simps]: "hget (hdel k m) k' = (if k' = k then None else hget m k')"
  by (simp add: delete_conv')

lemma hget_hmap_values [simp]: "hget (hmap_values f m) k = map_option f (hget m k)"
  by (induction m) (auto simp: hmap_values_def)

lemma hkeys_hmap_values [simp]: "hkeys (hmap_values f m) = hkeys m"
  by (induction m) (auto simp: hmap_values_def)

lemma hwf_Nil [simp]: "hwf []"
  by (simp add: hwf_def)

lemma hwf_hput [simp]: "hwf m \<Longrightarrow> hwf (hput k v m)"
  by (simp add: hwf_def distinct_update)

lemma hwf_hdel [simp]: "hwf m \<Longrightarrow> hwf (hdel k m)"
  by (simp add: hwf_def distinct_delete)

lemma hwf_hmap_values [simp]: "hwf (hmap_values f m) = hwf m"
  by (simp add: hwf_def)

lemma hextend_Nil [simp]: "hextend m [] = m"
  by (simp add: hextend_def)

lemma hextend_Cons [simp]: "hextend m ((k, v) # kvs) = hextend (hput k v m) kvs"
  by (simp add: hextend_def)

lemma hwf_hextend [simp]: "hwf m \<Longrightarrow> hwf (hextend m kvs)"
  by (induction kvs arbitrary: m) auto

text \<open>Lookup after a loop of inserts: the last entry of a key wins, else the old value.\<close>

lemma hget_hextend:
  "hget (hextend m kvs) k = (case hget (rev kvs) k of None \<Rightarrow> hget m k | Some v \<Rightarrow> Some v)"
  by (induction kvs arbitrary: m) (auto simp: map_add_def split: option.splits)

lemma hget_hextend_hwf [hmap_simps]:
  assumes "hwf kvs"
  shows "hget (hextend m kvs) k = (case hget kvs k of None \<Rightarrow> hget m k | Some v \<Rightarrow> Some v)"
proof -
  have "hget (rev kvs) = hget kvs"
    using assms map_of_inject_set [of "rev kvs" kvs] by (simp add: hwf_def rev_map [symmetric])
  then show ?thesis by (simp add: hget_hextend)
qed

lemma hget_hpush [simp]:
  "hget (hpush k v m) k' =
     (if k' = k then Some ((case hget m k of None \<Rightarrow> [] | Some vs \<Rightarrow> vs) @ [v]) else hget m k')"
  by (simp add: hpush_def)

lemma hwf_hpush [simp]: "hwf m \<Longrightarrow> hwf (hpush k v m)"
  by (simp add: hpush_def)

lemma hget_happend [simp]:
  "hget (happend k ws m) k' =
     (if k' = k then Some ((case hget m k of None \<Rightarrow> [] | Some vs \<Rightarrow> vs) @ ws) else hget m k')"
  by (simp add: happend_def)

lemma hmem_hput [simp]: "hmem k (hput k' v m) = (k = k' \<or> hmem k m)"
  by (auto simp: hmem_def)

lemma hmem_keys: "hmem k m = (k \<in> set (hkeys m))"
  by (simp add: hmem_def map_of_eq_None_iff)

lemma set_hkeys_hput [simp]: "set (hkeys (hput k v m)) = insert k (set (hkeys m))"
  by (simp add: dom_update)

lemma hget_Some_in: "hget m k = Some v \<Longrightarrow> (k, v) \<in> set m"
  by (rule map_of_SomeD)

lemma hwf_hget_iff: "hwf m \<Longrightarrow> (k, v) \<in> set m \<longleftrightarrow> hget m k = Some v"
  by (auto simp: hwf_def dest: map_of_SomeD)

lemma hput_hput_same: "hget (hput k v (hput k w m)) = hget (hput k v m)"
  by auto

subsection \<open>The laws the components rely on\<close>

locale dictionary =
  fixes empty :: 'm
    and get :: "'m \<Rightarrow> 'k \<Rightarrow> 'v option"
    and put :: "'k \<Rightarrow> 'v \<Rightarrow> 'm \<Rightarrow> 'm"
    and del :: "'k \<Rightarrow> 'm \<Rightarrow> 'm"
    and invar :: "'m \<Rightarrow> bool"
  assumes get_empty: "get empty k = None"
    and get_put: "invar m \<Longrightarrow> get (put k v m) k' = (if k' = k then Some v else get m k')"
    and get_del: "invar m \<Longrightarrow> get (del k m) k' = (if k' = k then None else get m k')"
    and invar_empty: "invar empty"
    and invar_put: "invar m \<Longrightarrow> invar (put k v m)"
    and invar_del: "invar m \<Longrightarrow> invar (del k m)"
begin

lemma put_then_del: "invar m \<Longrightarrow> get m k = None \<Longrightarrow> get (del k (put k v m)) = get m"
  by (auto simp: get_put get_del invar_put)

lemma put_frame: "invar m \<Longrightarrow> k' \<noteq> k \<Longrightarrow> get (put k v m) k' = get m k'"
  by (simp add: get_put)

lemma del_frame: "invar m \<Longrightarrow> k' \<noteq> k \<Longrightarrow> get (del k m) k' = get m k'"
  by (simp add: get_del)

lemma fold_put_invar: "invar m \<Longrightarrow> invar (fold (\<lambda>(k, v). put k v) kvs m)"
  by (induction kvs arbitrary: m) (auto simp: invar_put)

lemma fold_put_untouched:
  "invar m \<Longrightarrow> k \<notin> fst ` set kvs \<Longrightarrow> get (fold (\<lambda>(k, v). put k v) kvs m) k = get m k"
  by (induction kvs arbitrary: m) (auto simp: get_put invar_put)

end

interpretation hm: dictionary "[]" "\<lambda>m k. hget m k" "\<lambda>k v m. hput k v m" "\<lambda>k m. hdel k m" hwf
  by unfold_locales auto

lemma hextend_untouched: "hwf m \<Longrightarrow> k \<notin> set (hkeys kvs) \<Longrightarrow> hget (hextend m kvs) k = hget m k"
  using hm.fold_put_untouched [of m k kvs] by (simp add: hextend_def)

section \<open>Lists\<close>

text \<open>\<open>iter().filter_map(f).collect()\<close>\<close>

fun filter_map :: "('a \<Rightarrow> 'b option) \<Rightarrow> 'a list \<Rightarrow> 'b list" where
  "filter_map f [] = []"
| "filter_map f (x # xs) = (case f x of None \<Rightarrow> filter_map f xs | Some y \<Rightarrow> y # filter_map f xs)"

lemma set_filter_map: "set (filter_map f xs) = {y. \<exists>x\<in>set xs. f x = Some y}"
  by (induction xs) (auto split: option.splits)

lemma filter_map_append [simp]: "filter_map f (xs @ ys) = filter_map f xs @ filter_map f ys"
  by (induction xs) (auto split: option.splits)

text \<open>Index of the first element that satisfies a predicate (\<open>iter().position(..)\<close>).\<close>

fun position :: "('a \<Rightarrow> bool) \<Rightarrow> 'a list \<Rightarrow> nat option" where
  "position P [] = None"
| "position P (x # xs) = (if P x then Some 0 else map_option Suc (position P xs))"

lemma position_Some_iff:
  "position P xs = Some i \<longleftrightarrow> i < length xs \<and> P (xs ! i) \<and> (\<forall>j<i. \<not> P (xs ! j))"
proof (induction xs arbitrary: i)
  case Nil
  then show ?case by simp
next
  case (Cons x xs)
  show ?case
    by (cases i) (auto simp: Cons.IH less_Suc_eq_0_disj nth_Cons split: nat.splits)
qed

lemma position_None_iff: "position P xs = None \<longleftrightarrow> (\<forall>x\<in>set xs. \<not> P x)"
  by (induction xs) auto

lemma position_SomeD: "position P xs = Some i \<Longrightarrow> i < length xs \<and> P (xs ! i)"
  by (simp add: position_Some_iff)

definition remove_nth :: "nat \<Rightarrow> 'a list \<Rightarrow> 'a list" where
  "remove_nth i xs = take i xs @ drop (Suc i) xs"

definition insert_nth :: "nat \<Rightarrow> 'a \<Rightarrow> 'a list \<Rightarrow> 'a list" where
  "insert_nth i x xs = take i xs @ x # drop i xs"

lemma remove_nth_subset: "set (remove_nth i xs) \<subseteq> set xs"
  by (auto simp: remove_nth_def dest: in_set_takeD in_set_dropD)

lemma length_remove_nth [simp]: "i < length xs \<Longrightarrow> length (remove_nth i xs) = length xs - 1"
  by (simp add: remove_nth_def)

lemma length_insert_nth [simp]: "i \<le> length xs \<Longrightarrow> length (insert_nth i x xs) = Suc (length xs)"
  by (simp add: insert_nth_def)

lemma set_insert_nth [simp]: "set (insert_nth i x xs) = insert x (set xs)"
  by (simp add: insert_nth_def) (metis append_take_drop_id set_append)

lemma nth_insert_nth [simp]: "i \<le> length xs \<Longrightarrow> insert_nth i x xs ! i = x"
  by (simp add: insert_nth_def nth_append)

lemma insert_remove_nth: "i < length xs \<Longrightarrow> insert_nth i (xs ! i) (remove_nth i xs) = xs"
  by (simp add: insert_nth_def remove_nth_def id_take_nth_drop [symmetric])

section \<open>Decimal numbers\<close>

text \<open>\<open>format!("{}", n)\<close> of an unsigned integer.\<close>

fun show_nat :: "nat \<Rightarrow> string" where
  "show_nat n =
     (if n < 10 then [char_of (48 + n)] else show_nat (n div 10) @ [char_of (48 + n mod 10)])"

declare show_nat.simps [simp del]

fun read_digits :: "nat \<Rightarrow> string \<Rightarrow> nat" where
  "read_digits acc [] = acc"
| "read_digits acc (c # cs) = read_digits (10 * acc + (of_char c - 48)) cs"

lemma read_digits_append: "read_digits acc (xs @ ys) = read_digits (read_digits acc xs) ys"
  by (induction xs arbitrary: acc) auto

lemma read_show_nat: "read_digits 0 (show_nat n) = n"
proof (induction n rule: show_nat.induct)
  case (1 n)
  show ?case
  proof (cases "n < 10")
    case True
    then show ?thesis by (subst show_nat.simps) simp
  next
    case False
    have "10 * (n div 10) + n mod 10 = n" by presburger
    then show ?thesis
      using 1 [OF False] False by (subst show_nat.simps) (simp add: read_digits_append)
  qed
qed

lemma show_nat_inject [simp]: "show_nat m = show_nat n \<longleftrightarrow> m = n"
  by (metis read_show_nat)

section \<open>Transition systems\<close>

locale transition_system =
  fixes init :: "'s \<Rightarrow> bool"
    and step :: "'s \<Rightarrow> 's \<Rightarrow> bool"
begin

inductive reach :: "'s \<Rightarrow> bool" where
  reach_init: "init s \<Longrightarrow> reach s"
| reach_step: "reach s \<Longrightarrow> step s t \<Longrightarrow> reach t"

lemma reach_invariant:
  assumes "reach s"
    and "\<And>s. init s \<Longrightarrow> I s"
    and "\<And>s t. reach s \<Longrightarrow> I s \<Longrightarrow> step s t \<Longrightarrow> I t"
  shows "I s"
  using assms(1) by (induction rule: reach.induct) (auto intro: assms(2,3))

end

end
