(* ===== verification/Documents.thy ===== *)
theory Documents
  imports Prelude
begin

text \<open>
  The event-model documents (\<open>event_model/documents.rs\<close>, \<open>event_model/mod.rs\<close>,
  \<open>callbacks/doc_name.rs\<close>) and the error type (\<open>core/error.rs\<close>, the error enums of
  \<open>core/status.rs\<close>). Every struct is a record whose fields carry a short prefix of the
  struct's name (Isabelle's field selectors are global), every enum a datatype with the
  source's constructors. \<open>outcome\<close> is the result of a call: \<open>Ok\<close> and \<open>Err\<close> are Rust's
  \<open>Result\<close>, \<open>Panic\<close> a panicking \<open>expect\<close> or \<open>unreachable\<close>, and \<open>Hang\<close> a wait that the
  environment never ends within the given fuel.
\<close>

section \<open>Run start\<close>

datatype DimensionItem = DimName string | DimFields "string list"

record Hints =
  hints_dimensions :: "DimensionItem list list option"

record Projections =
  proj_configuration :: "(string, json) hmap"
  proj_name :: string
  proj_projection :: "(string, json) hmap"
  proj_version :: string

record RunStart =
  rs_uid :: string
  rs_time :: f64
  rs_scan_id :: "u64 option"
  rs_hints :: "Hints option"
  rs_sample :: "json option"
  rs_data_groups :: "string list"
  rs_data_session :: string
  rs_data_type :: "json option"
  rs_group :: string
  rs_owner :: string
  rs_project :: string
  rs_projections :: "Projections list"
  rs_extra :: "(string, json) hmap"

section \<open>Run stop\<close>

datatype ExitStatus = Success | Abort | Fail

fun exit_status_as_str :: "ExitStatus \<Rightarrow> string" where
  "exit_status_as_str Success = ''success''"
| "exit_status_as_str Abort = ''abort''"
| "exit_status_as_str Fail = ''fail''"

text \<open>\<open>FromStr\<close>: \<open>None\<close> is the error (its text is only printed).\<close>

definition exit_status_from_str :: "string \<Rightarrow> ExitStatus option" where
  "exit_status_from_str s =
     (if s = ''success'' then Some Success
      else if s = ''abort'' then Some Abort
      else if s = ''fail'' then Some Fail
      else None)"

lemma exit_status_from_as_str [simp]: "exit_status_from_str (exit_status_as_str e) = Some e"
  by (cases e) (simp_all add: exit_status_from_str_def)

lemma exit_status_from_str_ok:
  "exit_status_from_str s = Some e \<Longrightarrow> exit_status_as_str e = s"
  by (auto simp: exit_status_from_str_def split: if_splits)

lemma exit_status_from_str_iff:
  "(\<exists>e. exit_status_from_str s = Some e) \<longleftrightarrow> s \<in> {''success'', ''abort'', ''fail''}"
  by (auto simp: exit_status_from_str_def)

record RunStop =
  stop_uid :: string
  stop_run_start :: string
  stop_time :: f64
  stop_exit_status :: ExitStatus
  stop_reason :: "string option"
  stop_num_events :: "(string, u64) hmap"
  stop_data_type :: "json option"
  stop_extra :: "(string, json) hmap"

section \<open>Descriptors\<close>

datatype Dtype = DtString | DtNumber | DtArray | DtBoolean | DtInteger

record LimitsRange =
  lr_high :: "f64 option"
  lr_low :: "f64 option"

record RdsRange =
  rds_time_difference :: f64
  rds_value_difference :: f64

record Limits =
  lim_alarm :: "LimitsRange option"
  lim_control :: "LimitsRange option"
  lim_display :: "LimitsRange option"
  lim_warning :: "LimitsRange option"
  lim_hysteresis :: "f64 option"
  lim_rds :: "RdsRange option"

datatype DtypeNumpy = DnScalar string | DnStructured "(string \<times> string) list"

record DataKey =
  dk_source :: string
  dk_dtype :: Dtype
  dk_shape :: "u64 option list"
  dk_dtype_numpy :: "DtypeNumpy option"
  dk_external :: "string option"
  dk_units :: "string option"
  dk_precision :: "int option"
  dk_object_name :: "string option"
  dk_dims :: "string list option"
  dk_limits :: "Limits option"
  dk_choices :: "string list option"

record SignalMetadata =
  sm_limits :: "Limits option"
  sm_choices :: "string list option"
  sm_precision :: "int option"
  sm_units :: "string option"

definition make_datakey ::
  "string \<Rightarrow> Dtype \<Rightarrow> u64 option list \<Rightarrow> DtypeNumpy option \<Rightarrow> SignalMetadata \<Rightarrow> DataKey" where
  "make_datakey source dtype shape dtype_numpy meta =
     \<lparr> dk_source = source, dk_dtype = dtype, dk_shape = shape, dk_dtype_numpy = dtype_numpy,
       dk_external = None, dk_units = sm_units meta, dk_precision = sm_precision meta,
       dk_object_name = None, dk_dims = None, dk_limits = sm_limits meta,
       dk_choices = sm_choices meta \<rparr>"

record PerObjectHint =
  hint_fields :: "string list option"
  hint_NX_class :: "string option"

definition default_hint :: PerObjectHint where
  "default_hint = \<lparr> hint_fields = None, hint_NX_class = None \<rparr>"

record Configuration =
  cfg_data :: "(string, json) hmap"
  cfg_data_keys :: "(string, DataKey) hmap"
  cfg_timestamps :: "(string, f64) hmap"

definition default_configuration :: Configuration where
  "default_configuration = \<lparr> cfg_data = [], cfg_data_keys = [], cfg_timestamps = [] \<rparr>"

record EventDescriptor =
  desc_uid :: string
  desc_run_start :: string
  desc_time :: f64
  desc_data_keys :: "(string, DataKey) hmap"
  desc_configuration :: "(string, Configuration) hmap"
  desc_name :: "string option"
  desc_hints :: "(string, PerObjectHint) hmap option"
  desc_object_keys :: "(string, string list) hmap"

section \<open>Events, pages, external assets\<close>

record Reading =
  rd_value :: json
  rd_timestamp :: f64
  rd_alarm_severity :: "int option"
  rd_message :: "string option"

type_synonym readings = "(string, Reading) hmap"

record Event =
  ev_uid :: string
  ev_descriptor :: string
  ev_time :: f64
  ev_seq_num :: u64
  ev_data :: "(string, json) hmap"
  ev_timestamps :: "(string, f64) hmap"
  ev_filled :: "(string, json) hmap"

record EventPage =
  ep_uid :: "string list"
  ep_descriptor :: string
  ep_time :: "f64 list"
  ep_seq_num :: "u64 list"
  ep_data :: "(string, json list) hmap"
  ep_timestamps :: "(string, f64 list) hmap"
  ep_filled :: "(string, json list) hmap"

record Resource =
  res_uid :: string
  res_spec :: string
  res_root :: string
  res_resource_path :: string
  res_path_semantics :: "string option"
  res_resource_kwargs :: "(string, json) hmap"
  res_run_start :: "string option"

record Datum =
  dat_datum_id :: string
  dat_resource :: string
  dat_datum_kwargs :: "(string, json) hmap"

record DatumPage =
  dp_datum_id :: "string list"
  dp_resource :: string
  dp_datum_kwargs :: "(string, json list) hmap"

record StreamResource =
  sr_uid :: string
  sr_data_key :: string
  sr_mimetype :: string
  sr_uri :: string
  sr_parameters :: "(string, json) hmap"
  sr_run_start :: "string option"

record StreamRange =
  range_start :: u64
  range_stop :: u64

record StreamDatum =
  sd_uid :: string
  sd_stream_resource :: string
  sd_descriptor :: string
  sd_indices :: StreamRange
  sd_seq_nums :: StreamRange

datatype Document =
    DocStart RunStart
  | DocDescriptor EventDescriptor
  | DocEvent Event
  | DocEventPage EventPage
  | DocResource Resource
  | DocDatum Datum
  | DocDatumPage DatumPage
  | DocStreamResource StreamResource
  | DocStreamDatum StreamDatum
  | DocStop RunStop

fun document_name :: "Document \<Rightarrow> string" where
  "document_name (DocStart _) = ''start''"
| "document_name (DocDescriptor _) = ''descriptor''"
| "document_name (DocEvent _) = ''event''"
| "document_name (DocEventPage _) = ''event_page''"
| "document_name (DocResource _) = ''resource''"
| "document_name (DocDatum _) = ''datum''"
| "document_name (DocDatumPage _) = ''datum_page''"
| "document_name (DocStreamResource _) = ''stream_resource''"
| "document_name (DocStreamDatum _) = ''stream_datum''"
| "document_name (DocStop _) = ''stop''"

section \<open>Subscription filters\<close>

datatype DocFilter = FAll | FStart | FDescriptor | FEvent | FStop

definition is_descriptor :: "Document \<Rightarrow> bool" where
  "is_descriptor d = (case d of DocDescriptor _ \<Rightarrow> True | _ \<Rightarrow> False)"

definition is_event :: "Document \<Rightarrow> bool" where
  "is_event d = (case d of DocEvent _ \<Rightarrow> True | _ \<Rightarrow> False)"

definition is_start :: "Document \<Rightarrow> bool" where
  "is_start d = (case d of DocStart _ \<Rightarrow> True | _ \<Rightarrow> False)"

definition is_stop :: "Document \<Rightarrow> bool" where
  "is_stop d = (case d of DocStop _ \<Rightarrow> True | _ \<Rightarrow> False)"

fun filter_matches :: "DocFilter \<Rightarrow> Document \<Rightarrow> bool" where
  "filter_matches FAll doc = True"
| "filter_matches FStart doc = is_start doc"
| "filter_matches FDescriptor doc = is_descriptor doc"
| "filter_matches FEvent doc = is_event doc"
| "filter_matches FStop doc = is_stop doc"

lemmas doc_kind_defs = is_descriptor_def is_event_def is_start_def is_stop_def

lemma named_filter_name:
  "f \<noteq> FAll \<Longrightarrow> filter_matches f d \<Longrightarrow> filter_matches f d' \<Longrightarrow> document_name d = document_name d'"
  by (cases f; cases d; cases d') (simp_all add: doc_kind_defs)

section \<open>URIs\<close>

definition file_uri :: "string \<Rightarrow> string" where
  "file_uri path =
     (if path \<noteq> [] \<and> hd path = CHR ''/'' then ''file://localhost'' @ path
      else ''file://'' @ path)"

section \<open>Errors\<close>

datatype EventModelError =
    MismatchedDataKeys string
  | UnknownUid string
  | EmptyPack string string
  | EmJson string

datatype StatusError = StCancelled | StTimeout | StFailed string

type_synonym duration = nat

datatype BsrsError =
    Backend string
  | Timeout duration
  | ValueTimeout string string duration "json option"
  | Connect BsrsError
  | NotConnected NotConnected
  | Cancelled
  | InvalidValue string
  | Datatype string
  | State string
  | Plan string
  | Status StatusError
  | EventModel EventModelError
  | Json string
  | Other string
and NotConnected =
    Source string
  | Children "(string \<times> BsrsError) list"

datatype Interrupt = IStop | IAbort

fun interrupt_exit_status :: "Interrupt \<Rightarrow> string" where
  "interrupt_exit_status IStop = ''success''"
| "interrupt_exit_status IAbort = ''abort''"

datatype 'a outcome = Ok 'a | Err BsrsError | Panic string | Hang

definition is_ok :: "'a outcome \<Rightarrow> bool" where
  "is_ok r = (case r of Ok _ \<Rightarrow> True | _ \<Rightarrow> False)"

lemma is_ok_simps [simp]: "is_ok (Ok x)" "\<not> is_ok (Err e)" "\<not> is_ok (Panic p)" "\<not> is_ok Hang"
  by (simp_all add: is_ok_def)

end
