(* ===== verification/Pages.thy ===== *)
theory Pages
  imports Documents
begin

text \<open>
  Rows and column stores: \<open>event_model/page.rs\<close>. \<open>pack_*\<close> transposes a list of row
  documents into a page, \<open>unpack_*\<close> reverses it, \<open>merge_*\<close> concatenates pages and
  \<open>rechunk_*\<close> re-batches them. The loop both \<open>rechunk\<close> functions share is
  \<open>chunk_loop\<close>; its laws are proved once in the locale \<open>sliceable\<close>, which is
  interpreted for event pages and for datum pages. A function that indexes a column out of
  range panics in the source and is \<open>None\<close> here.
\<close>

section \<open>Columns\<close>

text \<open>The loops \<open>for (k, v) in &row { cols.entry(k).or_default().push(v) }\<close> over all rows,
  and \<open>for (k, col) in &page { cols.entry(k).or_default().extend(col) }\<close> over all pages.\<close>

definition pack_cols :: "('k, 'v) hmap list \<Rightarrow> ('k, 'v list) hmap" where
  "pack_cols rows = fold (\<lambda>row m. fold (\<lambda>(k, v). hpush k v) row m) rows []"

definition merge_cols :: "('k, 'v list) hmap list \<Rightarrow> ('k, 'v list) hmap" where
  "merge_cols pages = fold (\<lambda>page m. fold (\<lambda>(k, col). happend k col) page m) pages []"

text \<open>\<open>cols.iter().filter_map(|(k, col)| col.get(i).map(|v| (k, v)))\<close>\<close>

definition row_at :: "('k, 'v list) hmap \<Rightarrow> nat \<Rightarrow> ('k, 'v) hmap" where
  "row_at cols i =
     filter_map (\<lambda>(k, col). if i < length col then Some (k, col ! i) else None) cols"

definition slice_cols :: "('k, 'v list) hmap \<Rightarrow> nat \<Rightarrow> nat \<Rightarrow> ('k, 'v list) hmap" where
  "slice_cols cols start stop =
     map (\<lambda>(k, v). let lo = min start (length v); hi = min stop (length v)
                    in (k, take (hi - lo) (drop lo v))) cols"

section \<open>Event pages\<close>

definition pack_event_page :: "Event list \<Rightarrow> EventModelError + EventPage" where
  "pack_event_page events =
     (case events of
        [] \<Rightarrow> Inl (EmptyPack ''Event'' ''descriptor'')
      | e # _ \<Rightarrow> Inr \<lparr> ep_uid = map ev_uid events, ep_descriptor = ev_descriptor e,
                      ep_time = map ev_time events, ep_seq_num = map ev_seq_num events,
                      ep_data = pack_cols (map ev_data events),
                      ep_timestamps = pack_cols (map ev_timestamps events),
                      ep_filled = pack_cols (map ev_filled events) \<rparr>)"

definition event_row :: "EventPage \<Rightarrow> nat \<Rightarrow> Event" where
  "event_row page i =
     \<lparr> ev_uid = ep_uid page ! i, ev_descriptor = ep_descriptor page,
       ev_time = ep_time page ! i, ev_seq_num = ep_seq_num page ! i,
       ev_data = row_at (ep_data page) i, ev_timestamps = row_at (ep_timestamps page) i,
       ev_filled = row_at (ep_filled page) i \<rparr>"

text \<open>Every row indexes \<open>time\<close> and \<open>seq_num\<close>, so a page with fewer times or sequence
  numbers than uids panics.\<close>

definition page_in_range :: "EventPage \<Rightarrow> bool" where
  "page_in_range page \<longleftrightarrow>
     length (ep_uid page) \<le> length (ep_time page) \<and> length (ep_uid page) \<le> length (ep_seq_num page)"

definition unpack_event_page :: "EventPage \<Rightarrow> Event list option" where
  "unpack_event_page page =
     (if page_in_range page then Some (map (event_row page) [0..<length (ep_uid page)]) else None)"

definition merge_event_pages :: "EventPage list \<Rightarrow> EventPage" where
  "merge_event_pages pages =
     (if length pages = 1 then pages ! 0
      else \<lparr> ep_uid = concat (map ep_uid pages),
             ep_descriptor = (case pages of [] \<Rightarrow> '''' | p # _ \<Rightarrow> ep_descriptor p),
             ep_time = concat (map ep_time pages),
             ep_seq_num = concat (map ep_seq_num pages),
             ep_data = merge_cols (map ep_data pages),
             ep_timestamps = merge_cols (map ep_timestamps pages),
             ep_filled = merge_cols (map ep_filled pages) \<rparr>)"

definition slice_event_page :: "EventPage \<Rightarrow> nat \<Rightarrow> nat \<Rightarrow> EventPage" where
  "slice_event_page p start stop =
     \<lparr> ep_uid = take (stop - start) (drop start (ep_uid p)),
       ep_descriptor = ep_descriptor p,
       ep_time = take (stop - start) (drop start (ep_time p)),
       ep_seq_num = take (stop - start) (drop start (ep_seq_num p)),
       ep_data = slice_cols (ep_data p) start stop,
       ep_timestamps = slice_cols (ep_timestamps p) start stop,
       ep_filled = slice_cols (ep_filled p) start stop \<rparr>"

text \<open>\<open>while start < n { stop = min(start + chunk_size, n); out.push(slice); start = stop }\<close>\<close>

function chunk_loop :: "(nat \<Rightarrow> nat \<Rightarrow> 'p) \<Rightarrow> nat \<Rightarrow> nat \<Rightarrow> nat \<Rightarrow> 'p list" where
  "chunk_loop cutp n cs start =
     (if start < n \<and> 0 < cs
      then cutp start (min (start + cs) n) # chunk_loop cutp n cs (min (start + cs) n)
      else [])"
  by pat_completeness auto
termination
  by (relation "measure (\<lambda>(cutp, n, cs, start). n - start)") auto

declare chunk_loop.simps [simp del]

definition rechunk_event_pages :: "EventPage list \<Rightarrow> nat \<Rightarrow> EventPage list option" where
  "rechunk_event_pages pages chunk_size =
     (if chunk_size = 0 then Some []
      else let merged = merge_event_pages pages; n = length (ep_uid merged)
           in if page_in_range merged
              then Some (chunk_loop (slice_event_page merged) n chunk_size 0) else None)"

section \<open>Datum pages\<close>

definition pack_datum_page :: "Datum list \<Rightarrow> EventModelError + DatumPage" where
  "pack_datum_page datums =
     (case datums of
        [] \<Rightarrow> Inl (EmptyPack ''Datum'' ''resource'')
      | d # _ \<Rightarrow> Inr \<lparr> dp_datum_id = map dat_datum_id datums, dp_resource = dat_resource d,
                      dp_datum_kwargs = pack_cols (map dat_datum_kwargs datums) \<rparr>)"

definition datum_row :: "DatumPage \<Rightarrow> nat \<Rightarrow> Datum" where
  "datum_row page i =
     \<lparr> dat_datum_id = dp_datum_id page ! i, dat_resource = dp_resource page,
       dat_datum_kwargs = row_at (dp_datum_kwargs page) i \<rparr>"

definition unpack_datum_page :: "DatumPage \<Rightarrow> Datum list" where
  "unpack_datum_page page = map (datum_row page) [0..<length (dp_datum_id page)]"

definition merge_datum_pages :: "DatumPage list \<Rightarrow> DatumPage" where
  "merge_datum_pages pages =
     (if length pages = 1 then pages ! 0
      else \<lparr> dp_datum_id = concat (map dp_datum_id pages),
             dp_resource = (case pages of [] \<Rightarrow> '''' | p # _ \<Rightarrow> dp_resource p),
             dp_datum_kwargs = merge_cols (map dp_datum_kwargs pages) \<rparr>)"

definition slice_datum_page :: "DatumPage \<Rightarrow> nat \<Rightarrow> nat \<Rightarrow> DatumPage" where
  "slice_datum_page p start stop =
     \<lparr> dp_datum_id = take (stop - start) (drop start (dp_datum_id p)),
       dp_resource = dp_resource p,
       dp_datum_kwargs = slice_cols (dp_datum_kwargs p) start stop \<rparr>"

definition rechunk_datum_pages :: "DatumPage list \<Rightarrow> nat \<Rightarrow> DatumPage list" where
  "rechunk_datum_pages pages chunk_size =
     (if chunk_size = 0 then []
      else let merged = merge_datum_pages pages; n = length (dp_datum_id merged)
           in chunk_loop (slice_datum_page merged) n chunk_size 0)"

section \<open>Columns: lemmas\<close>

lemma fold_hpush:
  "hwf row \<Longrightarrow> hget (fold (\<lambda>(k, v). hpush k v) row m) k =
     (case hget row k of None \<Rightarrow> hget m k
      | Some v \<Rightarrow> Some ((case hget m k of None \<Rightarrow> [] | Some vs \<Rightarrow> vs) @ [v]))"
proof (induction row arbitrary: m)
  case Nil
  then show ?case by simp
next
  case (Cons kv row)
  obtain k' v' where kv: "kv = (k', v')" by (cases kv)
  from Cons.prems kv have wf: "hwf row" and new: "k' \<notin> fst ` set row"
    by (auto simp: hwf_def)
  from new have none: "hget row k' = None" by (simp add: map_of_eq_None_iff)
  show ?case
    using none by (auto simp: kv Cons.IH [OF wf] split: option.splits)
qed

text \<open>A packed column lists the values of the rows that have the key, in row order.\<close>

definition column :: "('k, 'v) hmap list \<Rightarrow> 'k \<Rightarrow> 'v list" where
  "column rows k = filter_map (\<lambda>row. hget row k) rows"

lemma fold_pack:
  "\<forall>row\<in>set rows. hwf row \<Longrightarrow>
   hget (fold (\<lambda>row m. fold (\<lambda>(k, v). hpush k v) row m) rows m) k =
     (if column rows k = [] then hget m k
      else Some ((case hget m k of None \<Rightarrow> [] | Some vs \<Rightarrow> vs) @ column rows k))"
proof (induction rows arbitrary: m)
  case Nil
  then show ?case by (simp add: column_def)
next
  case (Cons row rows)
  from Cons.prems have wf: "hwf row" "\<forall>row\<in>set rows. hwf row" by auto
  show ?case
    by (auto simp: Cons.IH [OF wf(2)] fold_hpush [OF wf(1)] column_def
             split: option.splits)
qed

lemma hget_pack_cols:
  assumes "\<forall>row\<in>set rows. hwf row"
  shows "hget (pack_cols rows) k = (if column rows k = [] then None else Some (column rows k))"
  using fold_pack [OF assms, of "[]"] by (simp add: pack_cols_def)

lemma hwf_fold_hpush: "hwf m \<Longrightarrow> hwf (fold (\<lambda>(k, v). hpush k v) row m)"
  by (induction row arbitrary: m) auto

lemma hwf_pack_cols: "hwf (pack_cols rows)"
proof -
  have "hwf m \<Longrightarrow> hwf (fold (\<lambda>row m. fold (\<lambda>(k, v). hpush k v) row m) rows m)" for m
    by (induction rows arbitrary: m) (auto simp: hwf_fold_hpush)
  then show ?thesis by (simp add: pack_cols_def)
qed

lemma hget_row_at:
  "hwf cols \<Longrightarrow> hget (row_at cols i) k =
     (case hget cols k of None \<Rightarrow> None | Some col \<Rightarrow> if i < length col then Some (col ! i) else None)"
proof (induction cols)
  case Nil
  then show ?case by (simp add: row_at_def)
next
  case (Cons kc cols)
  obtain k' col where kc: "kc = (k', col)" by (cases kc)
  from Cons.prems kc have wf: "hwf cols" and new: "hget cols k' = None"
    by (auto simp: hwf_def map_of_eq_None_iff)
  have "row_at (kc # cols) i = (if i < length col then [(k', col ! i)] else []) @ row_at cols i"
    by (simp add: row_at_def kc)
  then show ?case
    using new Cons.IH [OF wf] by (auto simp: kc split: option.splits)
qed

definition uniform_rows :: "('k, 'v) hmap list \<Rightarrow> bool" where
  "uniform_rows rows \<longleftrightarrow>
     (\<forall>row\<in>set rows. hwf row \<and> (\<forall>row'\<in>set rows. set (hkeys row) = set (hkeys row')))"

lemma column_uniform:
  assumes "\<forall>row\<in>set rows. hget row k \<noteq> None"
  shows "column rows k = map (\<lambda>row. the (hget row k)) rows"
  using assms by (induction rows) (auto simp: column_def)

lemma column_absent:
  assumes "\<forall>row\<in>set rows. hget row k = None"
  shows "column rows k = []"
  using assms by (induction rows) (auto simp: column_def)

lemma row_at_pack_cols:
  assumes uni: "uniform_rows rows" and i: "i < length rows"
  shows "hget (row_at (pack_cols rows) i) = hget (rows ! i)"
proof
  fix k
  have wf: "\<forall>row\<in>set rows. hwf row" using uni by (simp add: uniform_rows_def)
  have mem: "rows ! i \<in> set rows" using i by simp
  have same: "row \<in> set rows \<Longrightarrow> (hget row k = None) = (hget (rows ! i) k = None)" for row
  proof -
    assume "row \<in> set rows"
    then have "set (hkeys row) = set (hkeys (rows ! i))"
      using uni mem unfolding uniform_rows_def by blast
    then show ?thesis by (simp add: map_of_eq_None_iff)
  qed
  show "hget (row_at (pack_cols rows) i) k = hget (rows ! i) k"
  proof (cases "hget (rows ! i) k")
    case None
    then have "column rows k = []" using same by (blast intro: column_absent)
    then show ?thesis
      using None by (simp add: hget_row_at [OF hwf_pack_cols] hget_pack_cols [OF wf])
  next
    case (Some v)
    then have "column rows k = map (\<lambda>row. the (hget row k)) rows"
      using same by (intro column_uniform) auto
    then show ?thesis
      using Some i by (auto simp: hget_row_at [OF hwf_pack_cols] hget_pack_cols [OF wf])
  qed
qed

lemma fold_happend:
  "hwf page \<Longrightarrow> hget (fold (\<lambda>(k, col). happend k col) page m) k =
     (case hget page k of None \<Rightarrow> hget m k
      | Some col \<Rightarrow> Some ((case hget m k of None \<Rightarrow> [] | Some vs \<Rightarrow> vs) @ col))"
proof (induction page arbitrary: m)
  case Nil
  then show ?case by simp
next
  case (Cons kv page)
  obtain k' col where kv: "kv = (k', col)" by (cases kv)
  from Cons.prems kv have wf: "hwf page" and none: "hget page k' = None"
    by (auto simp: hwf_def map_of_eq_None_iff)
  show ?case
    using none by (auto simp: kv Cons.IH [OF wf] split: option.splits)
qed

lemma hwf_fold_happend: "hwf m \<Longrightarrow> hwf (fold (\<lambda>(k, col). happend k col) page m)"
  by (induction page arbitrary: m) (auto simp: happend_def)

lemma hwf_merge_cols: "hwf (merge_cols pages)"
proof -
  have "hwf m \<Longrightarrow> hwf (fold (\<lambda>page m. fold (\<lambda>(k, col). happend k col) page m) pages m)" for m
    by (induction pages arbitrary: m) (auto simp: hwf_fold_happend)
  then show ?thesis by (simp add: merge_cols_def)
qed

lemma column_append: "column (rows @ rows') k = column rows k @ column rows' k"
  by (induction rows) (auto simp: column_def split: option.splits)

text \<open>Merging packed pages packs the rows of all of them.\<close>

lemma fold_merge_packed:
  "\<forall>rows\<in>set rowss. \<forall>row\<in>set rows. hwf row \<Longrightarrow>
   hget (fold (\<lambda>page m. fold (\<lambda>(k, col). happend k col) page m) (map pack_cols rowss) m) k =
     (if column (concat rowss) k = [] then hget m k
      else Some ((case hget m k of None \<Rightarrow> [] | Some vs \<Rightarrow> vs) @ column (concat rowss) k))"
proof (induction rowss arbitrary: m)
  case Nil
  then show ?case by (simp add: column_def)
next
  case (Cons rows rowss)
  from Cons.prems have wf: "\<forall>row\<in>set rows. hwf row" "\<forall>rows\<in>set rowss. \<forall>row\<in>set rows. hwf row"
    by auto
  show ?case
    by (auto simp: Cons.IH [OF wf(2)] fold_happend [OF hwf_pack_cols] hget_pack_cols [OF wf(1)]
        column_append split: option.splits)
qed

lemma row_at_merge_packed:
  assumes uni: "uniform_rows (concat rowss)" and i: "i < length (concat rowss)"
  shows "hget (row_at (merge_cols (map pack_cols rowss)) i) = hget (concat rowss ! i)"
proof -
  have wf: "\<forall>row\<in>set (concat rowss). hwf row" using uni unfolding uniform_rows_def by blast
  have "hget (merge_cols (map pack_cols rowss)) k = hget (pack_cols (concat rowss)) k" for k
    using fold_merge_packed [of rowss "[]" k] wf
    by (simp add: merge_cols_def hget_pack_cols [OF wf])
  then have "hget (row_at (merge_cols (map pack_cols rowss)) i) k
      = hget (row_at (pack_cols (concat rowss)) i) k" for k
    by (simp add: hget_row_at [OF hwf_merge_cols] hget_row_at [OF hwf_pack_cols])
  then show ?thesis using row_at_pack_cols [OF uni i] by auto
qed

lemma row_at_slice_cols:
  "start + j < stop \<Longrightarrow> row_at (slice_cols cols start stop) j = row_at cols (start + j)"
proof (induction cols)
  case Nil
  show ?case by (simp add: slice_cols_def row_at_def)
next
  case (Cons kc cols)
  obtain k col where kc: "kc = (k, col)" by (cases kc)
  let ?lo = "min start (length col)" and ?hi = "min stop (length col)"
  let ?c = "take (?hi - ?lo) (drop ?lo col)"
  have len: "j < length ?c \<longleftrightarrow> start + j < length col"
    using Cons.prems by (auto simp: min_def)
  moreover have "start + j < length col \<Longrightarrow> ?c ! j = col ! (start + j)"
    using Cons.prems by (simp add: min_def)
  ultimately show ?case
    using Cons.IH [OF Cons.prems] by (simp add: kc row_at_def slice_cols_def Let_def)
qed

section \<open>Rechunking\<close>

locale sliceable =
  fixes len :: "'p \<Rightarrow> nat"
    and cutp :: "'p \<Rightarrow> nat \<Rightarrow> nat \<Rightarrow> 'p"
    and row :: "'p \<Rightarrow> nat \<Rightarrow> 'r"
    and ok :: "'p \<Rightarrow> bool"
  assumes len_cutp: "start \<le> stop \<Longrightarrow> stop \<le> len p \<Longrightarrow> len (cutp p start stop) = stop - start"
    and row_cutp: "ok p \<Longrightarrow> start + j < stop \<Longrightarrow> stop \<le> len p \<Longrightarrow>
                  row (cutp p start stop) j = row p (start + j)"
    and ok_cutp: "ok p \<Longrightarrow> start \<le> stop \<Longrightarrow> stop \<le> len p \<Longrightarrow> ok (cutp p start stop)"
begin

lemma rows_cutp:
  assumes "ok p" "start \<le> stop" "stop \<le> len p"
  shows "map (row (cutp p start stop)) [0..<len (cutp p start stop)] = map (row p) [start..<stop]"
  by (rule nth_equalityI) (use assms in \<open>auto simp: len_cutp row_cutp\<close>)

lemma chunk_rows:
  assumes "ok p"
  shows "0 < cs \<Longrightarrow> start \<le> len p \<Longrightarrow>
    concat (map (\<lambda>q. map (row q) [0..<len q]) (chunk_loop (cutp p) (len p) cs start))
      = map (row p) [start..<len p]"
proof (induction "cutp p" "len p" cs start rule: chunk_loop.induct)
  case (1 cs start)
  show ?case
  proof (cases "start < len p \<and> 0 < cs")
    case True
    let ?stop = "min (start + cs) (len p)"
    let ?f = "\<lambda>q. map (row q) [0..<len q]"
    have split: "[start..<len p] = [start..<?stop] @ [?stop..<len p]"
      using True upt_add_eq_append [of start ?stop "len p - ?stop"] by simp
    have eq: "chunk_loop (cutp p) (len p) cs start
                = cutp p start ?stop # chunk_loop (cutp p) (len p) cs ?stop"
      using True by (subst chunk_loop.simps) simp
    have first: "?f (cutp p start ?stop) = map (row p) [start..<?stop]"
      by (rule rows_cutp) (use True assms in auto)
    have rest: "concat (map ?f (chunk_loop (cutp p) (len p) cs ?stop)) = map (row p) [?stop..<len p]"
      by (rule "1.hyps") (use True in auto)
    show ?thesis
      by (simp only: eq list.map concat.simps first rest split map_append)
  next
    case False
    then have "chunk_loop (cutp p) (len p) cs start = []"
      by (subst chunk_loop.simps) simp
    then show ?thesis using "1.prems" False by simp
  qed
qed

text \<open>Every chunk is a non-empty page of at most \<open>cs\<close> rows, and only the last may have fewer.\<close>

lemma chunk_sizes:
  "start \<le> len p \<Longrightarrow> i < length (chunk_loop (cutp p) (len p) cs start) \<Longrightarrow>
   0 < len (chunk_loop (cutp p) (len p) cs start ! i)
   \<and> len (chunk_loop (cutp p) (len p) cs start ! i) \<le> cs
   \<and> (Suc i < length (chunk_loop (cutp p) (len p) cs start) \<longrightarrow>
        len (chunk_loop (cutp p) (len p) cs start ! i) = cs)"
proof (induction "cutp p" "len p" cs start arbitrary: i rule: chunk_loop.induct)
  case (1 cs start)
  show ?case
  proof (cases "start < len p \<and> 0 < cs")
    case True
    let ?stop = "min (start + cs) (len p)"
    let ?rest = "chunk_loop (cutp p) (len p) cs ?stop"
    have eq: "chunk_loop (cutp p) (len p) cs start = cutp p start ?stop # ?rest"
      using True by (subst chunk_loop.simps) simp
    have size: "len (cutp p start ?stop) = ?stop - start"
      by (rule len_cutp) (use True in auto)
    have full: "?rest \<noteq> [] \<Longrightarrow> ?stop - start = cs"
      using True by (subst (asm) chunk_loop.simps) (auto split: if_splits)
    show ?thesis
    proof (cases i)
      case 0
      then show ?thesis using True full by (auto simp: eq size)
    next
      case (Suc i')
      with "1.prems"(2) have i': "i' < length ?rest" by (simp add: eq)
      show ?thesis
        using "1.hyps" [OF True _ i'] Suc by (simp add: eq)
    qed
  next
    case False
    then have "chunk_loop (cutp p) (len p) cs start = []"
      by (subst chunk_loop.simps) simp
    then show ?thesis using "1.prems" by simp
  qed
qed

lemma chunk_ok:
  assumes "ok p"
  shows "start \<le> len p \<Longrightarrow> q \<in> set (chunk_loop (cutp p) (len p) cs start) \<Longrightarrow> ok q"
proof (induction "cutp p" "len p" cs start rule: chunk_loop.induct)
  case (1 cs start)
  show ?case
  proof (cases "start < len p \<and> 0 < cs")
    case True
    let ?stop = "min (start + cs) (len p)"
    have eq: "chunk_loop (cutp p) (len p) cs start
                = cutp p start ?stop # chunk_loop (cutp p) (len p) cs ?stop"
      using True by (subst chunk_loop.simps) simp
    have "ok (cutp p start ?stop)" by (rule ok_cutp) (use True assms in auto)
    then show ?thesis using "1.prems"(2) "1.hyps" [OF True] by (auto simp: eq)
  next
    case False
    then have "chunk_loop (cutp p) (len p) cs start = []"
      by (subst chunk_loop.simps) simp
    then show ?thesis using "1.prems" by simp
  qed
qed

end

interpretation evp: sliceable "\<lambda>p. length (ep_uid p)" slice_event_page event_row page_in_range
  by unfold_locales
    (auto simp: slice_event_page_def event_row_def page_in_range_def row_at_slice_cols)

interpretation dtp: sliceable "\<lambda>p. length (dp_datum_id p)" slice_datum_page datum_row "\<lambda>_. True"
  by unfold_locales (auto simp: slice_datum_page_def datum_row_def row_at_slice_cols)

section \<open>Correctness\<close>

text \<open>Documents whose maps agree: equal up to the unspecified order of hash map entries.\<close>

definition event_eq :: "Event \<Rightarrow> Event \<Rightarrow> bool" where
  "event_eq a b \<longleftrightarrow>
     ev_uid a = ev_uid b \<and> ev_descriptor a = ev_descriptor b \<and> ev_time a = ev_time b
     \<and> ev_seq_num a = ev_seq_num b \<and> hget (ev_data a) = hget (ev_data b)
     \<and> hget (ev_timestamps a) = hget (ev_timestamps b) \<and> hget (ev_filled a) = hget (ev_filled b)"

definition datum_eq :: "Datum \<Rightarrow> Datum \<Rightarrow> bool" where
  "datum_eq a b \<longleftrightarrow>
     dat_datum_id a = dat_datum_id b \<and> dat_resource a = dat_resource b
     \<and> hget (dat_datum_kwargs a) = hget (dat_datum_kwargs b)"

definition uniform_events :: "Event list \<Rightarrow> bool" where
  "uniform_events es \<longleftrightarrow>
     uniform_rows (map ev_data es) \<and> uniform_rows (map ev_timestamps es)
     \<and> uniform_rows (map ev_filled es)"

definition page_wf :: "EventPage \<Rightarrow> bool" where
  "page_wf p \<longleftrightarrow> length (ep_time p) = length (ep_uid p) \<and> length (ep_seq_num p) = length (ep_uid p)"

lemma pack_event_page_nonempty:
  "es \<noteq> [] \<Longrightarrow> pack_event_page es =
     Inr \<lparr> ep_uid = map ev_uid es, ep_descriptor = ev_descriptor (es ! 0),
           ep_time = map ev_time es, ep_seq_num = map ev_seq_num es,
           ep_data = pack_cols (map ev_data es), ep_timestamps = pack_cols (map ev_timestamps es),
           ep_filled = pack_cols (map ev_filled es) \<rparr>"
  by (cases es) (simp_all add: pack_event_page_def)

lemma pack_datum_page_nonempty:
  "ds \<noteq> [] \<Longrightarrow> pack_datum_page ds =
     Inr \<lparr> dp_datum_id = map dat_datum_id ds, dp_resource = dat_resource (ds ! 0),
           dp_datum_kwargs = pack_cols (map dat_datum_kwargs ds) \<rparr>"
  by (cases ds) (simp_all add: pack_datum_page_def)

lemma event_row_pack:
  assumes uni: "uniform_events es" and d: "\<forall>e\<in>set es. ev_descriptor e = d"
    and p: "pack_event_page es = Inr p" and i: "i < length es"
  shows "event_eq (event_row p i) (es ! i)"
proof -
  have ne: "es \<noteq> []" using i by auto
  have "ev_descriptor (es ! i) = ev_descriptor (es ! 0)" using d i ne by simp
  then show ?thesis
    using uni p i row_at_pack_cols [of "map ev_data es" i]
      row_at_pack_cols [of "map ev_timestamps es" i] row_at_pack_cols [of "map ev_filled es" i]
    by (auto simp: event_eq_def event_row_def uniform_events_def pack_event_page_nonempty [OF ne])
qed

lemma merge_wf: "\<forall>p\<in>set pages. page_wf p \<Longrightarrow> page_wf (merge_event_pages pages)"
proof -
  assume wf: "\<forall>p\<in>set pages. page_wf p"
  then have "sum_list (map (length \<circ> ep_time) pages) = sum_list (map (length \<circ> ep_uid) pages)"
    "sum_list (map (length \<circ> ep_seq_num) pages) = sum_list (map (length \<circ> ep_uid) pages)"
    by (auto simp: page_wf_def intro!: arg_cong [of _ _ sum_list])
  then show ?thesis
    using wf by (auto simp: merge_event_pages_def page_wf_def length_concat comp_def)
qed

lemma merge_uids: "ep_uid (merge_event_pages pages) = concat (map ep_uid pages)"
  by (cases pages rule: remdups_adj.cases) (auto simp: merge_event_pages_def)

text \<open>C27. Packing events into a page and unpacking it gives the events back, in order:
  for a non-empty list of events of one descriptor whose rows have the same keys,
  \<open>pack_event_page\<close> succeeds, \<open>unpack_event_page\<close> of the page does not panic, and each
  unpacked event agrees with the packed one in every scalar field and in every map.\<close>

theorem pack_unpack_event_page:
  assumes "es \<noteq> []" and "\<forall>e\<in>set es. ev_descriptor e = d" and "uniform_events es"
  shows "\<exists>p es'. pack_event_page es = Inr p \<and> unpack_event_page p = Some es'
                \<and> list_all2 event_eq es' es"
proof -
  obtain p where p: "pack_event_page es = Inr p" and len: "length (ep_uid p) = length es"
    and rng: "page_in_range p"
    using pack_event_page_nonempty [OF assms(1)] by (auto simp: page_in_range_def)
  have "list_all2 event_eq (map (event_row p) [0..<length es]) es"
    by (simp add: list_all2_conv_all_nth event_row_pack [OF assms(3,2) p])
  then show ?thesis using p rng len by (auto simp: unpack_event_page_def)
qed

text \<open>Rechunking, for pages whose columns \<open>uid\<close>, \<open>time\<close> and \<open>seq_num\<close> have equal length.\<close>

text \<open>C28. \<open>rechunk_event_pages\<close> with a positive chunk size never panics on well-formed pages;
  unpacking its pages one after the other yields exactly the rows of the merged input, whose
  uids are those of the input pages, in order; and every output page is non-empty, has at most \<open>chunk_size\<close> rows, and has exactly
  \<open>chunk_size\<close> rows unless it is the last.\<close>

theorem rechunk_event_pages_correct:
  assumes wf: "\<forall>p\<in>set pages. page_wf p" and cs: "0 < chunk_size"
  shows "\<exists>out. rechunk_event_pages pages chunk_size = Some out
     \<and> concat (map (the \<circ> unpack_event_page) out) = the (unpack_event_page (merge_event_pages pages))
     \<and> map ev_uid (concat (map (the \<circ> unpack_event_page) out)) = concat (map ep_uid pages)
     \<and> (\<forall>i<length out. unpack_event_page (out ! i) \<noteq> None
           \<and> 0 < length (ep_uid (out ! i)) \<and> length (ep_uid (out ! i)) \<le> chunk_size
           \<and> (Suc i < length out \<longrightarrow> length (ep_uid (out ! i)) = chunk_size))"
proof -
  let ?m = "merge_event_pages pages"
  let ?n = "length (ep_uid ?m)"
  let ?out = "chunk_loop (slice_event_page ?m) ?n chunk_size 0"
  have rng: "page_in_range ?m" using merge_wf [OF wf] by (simp add: page_wf_def page_in_range_def)
  have ok: "q \<in> set ?out \<Longrightarrow> page_in_range q" for q
    by (rule evp.chunk_ok [OF rng]) auto
  have "concat (map (the \<circ> unpack_event_page) ?out)
          = concat (map (\<lambda>q. map (event_row q) [0..<length (ep_uid q)]) ?out)"
    by (intro arg_cong [of _ _ concat] map_cong) (auto simp: unpack_event_page_def ok)
  also have "\<dots> = the (unpack_event_page ?m)"
    using evp.chunk_rows [OF rng cs, of 0] rng by (simp add: unpack_event_page_def)
  finally have rows: "concat (map (the \<circ> unpack_event_page) ?out) = the (unpack_event_page ?m)" .
  have out: "rechunk_event_pages pages chunk_size = Some ?out"
    using cs rng by (simp add: rechunk_event_pages_def Let_def)
  have sizes: "i < length ?out \<Longrightarrow> 0 < length (ep_uid (?out ! i))
      \<and> length (ep_uid (?out ! i)) \<le> chunk_size
      \<and> (Suc i < length ?out \<longrightarrow> length (ep_uid (?out ! i)) = chunk_size)" for i
    using evp.chunk_sizes [of 0 ?m i chunk_size] by simp
  have "i < length ?out \<Longrightarrow> unpack_event_page (?out ! i) \<noteq> None" for i
    using ok [of "?out ! i"] by (simp add: unpack_event_page_def)
  moreover have "map ev_uid (the (unpack_event_page ?m)) = concat (map ep_uid pages)"
    using rng by (simp add: unpack_event_page_def event_row_def comp_def map_nth merge_uids)
  ultimately show ?thesis using out sizes rows by simp
qed

text \<open>A datum of the merged page, by its position among the datums that were packed.\<close>

lemma uniform_part:
  assumes "uniform_rows (map dat_datum_kwargs (concat dss))" and "ds \<in> set dss"
  shows "uniform_rows (map dat_datum_kwargs ds)"
proof -
  have "set (map dat_datum_kwargs ds) \<subseteq> set (map dat_datum_kwargs (concat dss))"
    using assms(2) by auto
  then show ?thesis using assms(1) unfolding uniform_rows_def by blast
qed

definition packed_datums :: "Datum list \<Rightarrow> DatumPage" where
  "packed_datums ds =
     \<lparr> dp_datum_id = map dat_datum_id ds, dp_resource = dat_resource (ds ! 0),
       dp_datum_kwargs = pack_cols (map dat_datum_kwargs ds) \<rparr>"

lemma datum_row_packed:
  assumes "\<forall>d\<in>set ds. dat_resource d = r" and "uniform_rows (map dat_datum_kwargs ds)"
    and "i < length ds"
  shows "datum_eq (datum_row (packed_datums ds) i) (ds ! i)"
proof -
  have "ds ! 0 \<in> set ds" using assms(3) by (cases ds) auto
  then show ?thesis
    using assms row_at_pack_cols [of "map dat_datum_kwargs ds" i]
    by (auto simp: datum_eq_def datum_row_def packed_datums_def)
qed

lemma unpack_packed:
  assumes "\<forall>d\<in>set ds. dat_resource d = r" and "uniform_rows (map dat_datum_kwargs ds)"
  shows "list_all2 datum_eq (unpack_datum_page (packed_datums ds)) ds"
  using datum_row_packed [OF assms]
  by (simp add: unpack_datum_page_def list_all2_conv_all_nth packed_datums_def)

lemma merge_packed:
  assumes ne: "\<forall>ds\<in>set dss. ds \<noteq> []" and res: "\<forall>d\<in>set (concat dss). dat_resource d = r"
    and uni: "uniform_rows (map dat_datum_kwargs (concat dss))"
  shows "list_all2 datum_eq (unpack_datum_page (merge_datum_pages (map packed_datums dss)))
           (concat dss)"
proof (cases "length dss = 1")
  case True
  then obtain ds where ds: "dss = [ds]" by (auto simp: length_Suc_conv)
  then show ?thesis
    using unpack_packed [of ds r] res uni by (simp add: merge_datum_pages_def)
next
  case False
  let ?m = "merge_datum_pages (map packed_datums dss)"
  have ids: "dp_datum_id ?m = map dat_datum_id (concat dss)"
    using False by (simp add: merge_datum_pages_def packed_datums_def map_concat comp_def)
  have cols: "dp_datum_kwargs ?m = merge_cols (map pack_cols (map (map dat_datum_kwargs) dss))"
    using False by (simp add: merge_datum_pages_def packed_datums_def comp_def)
  have "i < length (concat dss) \<Longrightarrow> datum_eq (datum_row ?m i) (concat dss ! i)" for i
  proof -
    assume i: "i < length (concat dss)"
    then obtain ds dss' where dss: "dss = ds # dss'" by (cases dss) auto
    with ne obtain d ds' where "ds = d # ds'" by (cases ds) auto
    with dss False res have "dp_resource ?m = r"
      by (simp add: merge_datum_pages_def packed_datums_def)
    moreover have "dat_resource (concat dss ! i) = r"
      using res i nth_mem by blast
    moreover have "hget (row_at (dp_datum_kwargs ?m) i) = hget (dat_datum_kwargs (concat dss ! i))"
      using row_at_merge_packed [of "map (map dat_datum_kwargs) dss" i] uni i
      unfolding cols by (simp add: map_concat [symmetric] del: map_map)
    ultimately show ?thesis using i by (simp add: datum_eq_def datum_row_def ids)
  qed
  then show ?thesis by (simp add: unpack_datum_page_def list_all2_conv_all_nth ids)
qed

text \<open>C29. The datum side. Take any batches of datums of one resource, none of them empty, all
  rows with the same keys, and a positive chunk size. Then every batch packs into a page;
  unpacking a page gives the datums of its batch back, in order; rechunking the pages and
  unpacking the result gives the datums of ALL batches, in order, so the merge loses none and
  mixes up none; and every page of the result is non-empty, has at most \<open>chunk_size\<close> rows, and
  has exactly \<open>chunk_size\<close> rows unless it is the last. (Agreement of datums is of id, resource
  and every keyword argument, up to the order of the hash map.)\<close>

theorem datum_pages_correct:
  assumes ne: "\<forall>ds\<in>set dss. ds \<noteq> []" and res: "\<forall>d\<in>set (concat dss). dat_resource d = r"
    and uni: "uniform_rows (map dat_datum_kwargs (concat dss))" and cs: "0 < chunk_size"
  shows "\<exists>ps out. map pack_datum_page dss = map Inr ps
     \<and> list_all2 (\<lambda>p ds. list_all2 datum_eq (unpack_datum_page p) ds) ps dss
     \<and> rechunk_datum_pages ps chunk_size = out
     \<and> list_all2 datum_eq (concat (map unpack_datum_page out)) (concat dss)
     \<and> (\<forall>i<length out. 0 < length (dp_datum_id (out ! i))
           \<and> length (dp_datum_id (out ! i)) \<le> chunk_size
           \<and> (Suc i < length out \<longrightarrow> length (dp_datum_id (out ! i)) = chunk_size))"
proof -
  let ?ps = "map packed_datums dss"
  let ?m = "merge_datum_pages ?ps"
  let ?out = "chunk_loop (slice_datum_page ?m) (length (dp_datum_id ?m)) chunk_size 0"
  have "map pack_datum_page dss = map Inr ?ps"
    using ne by (simp add: pack_datum_page_nonempty packed_datums_def)
  moreover have "list_all2 (\<lambda>p ds. list_all2 datum_eq (unpack_datum_page p) ds) ?ps dss"
    using res uniform_part [OF uni]
    by (auto simp: list_all2_conv_all_nth [of _ "map packed_datums dss"] intro!: unpack_packed)
  moreover have "rechunk_datum_pages ?ps chunk_size = ?out"
    using cs by (simp add: rechunk_datum_pages_def Let_def)
  moreover have "concat (map unpack_datum_page ?out) = unpack_datum_page ?m"
    using dtp.chunk_rows [where p = ?m and cs = chunk_size and start = 0] cs
    by (simp add: unpack_datum_page_def [abs_def])
  moreover have "\<forall>i<length ?out. 0 < length (dp_datum_id (?out ! i))
           \<and> length (dp_datum_id (?out ! i)) \<le> chunk_size
           \<and> (Suc i < length ?out \<longrightarrow> length (dp_datum_id (?out ! i)) = chunk_size)"
    using dtp.chunk_sizes [where start = 0 and p = ?m and cs = chunk_size] by blast
  ultimately show ?thesis using merge_packed [OF ne res uni] by metis
qed

section \<open>Witnesses\<close>

definition example_event :: "string \<Rightarrow> u64 \<Rightarrow> int \<Rightarrow> Event" where
  "example_event u n x =
     \<lparr> ev_uid = u, ev_descriptor = ''d-1'', ev_time = 100, ev_seq_num = n,
       ev_data = [(''x'', JInt x)], ev_timestamps = [(''x'', 7)], ev_filled = [] \<rparr>"

definition example_events :: "Event list" where
  "example_events = [example_event ''a'' 1 10, example_event ''b'' 2 20, example_event ''c'' 3 30]"

definition example_page :: EventPage where
  "example_page =
     \<lparr> ep_uid = [''a'', ''b'', ''c''], ep_descriptor = ''d-1'', ep_time = [100, 100, 100],
       ep_seq_num = [1, 2, 3], ep_data = [(''x'', [JInt 10, JInt 20, JInt 30])],
       ep_timestamps = [(''x'', [7, 7, 7])], ep_filled = [] \<rparr>"

lemma example_events_hyps:
  "example_events \<noteq> []" "\<forall>e\<in>set example_events. ev_descriptor e = ''d-1''"
  "uniform_events example_events"
  by (simp_all add: example_events_def example_event_def uniform_events_def uniform_rows_def hwf_def)

theorem pack_unpack_event_page_witness:
  "\<exists>p es'. pack_event_page example_events = Inr p \<and> unpack_event_page p = Some es'
          \<and> list_all2 event_eq es' example_events"
  using pack_unpack_event_page [OF example_events_hyps] .

theorem rechunk_event_pages_correct_witness:
  "\<exists>out. rechunk_event_pages [example_page, example_page] 4 = Some out
     \<and> concat (map (the \<circ> unpack_event_page) out)
         = the (unpack_event_page (merge_event_pages [example_page, example_page]))"
proof -
  have "\<forall>p\<in>set [example_page, example_page]. page_wf p"
    by (simp add: page_wf_def example_page_def)
  then show ?thesis
    using rechunk_event_pages_correct [of "[example_page, example_page]" 4] by auto
qed

definition example_datum :: "string \<Rightarrow> int \<Rightarrow> Datum" where
  "example_datum u i =
     \<lparr> dat_datum_id = u, dat_resource = ''r'', dat_datum_kwargs = [(''i'', JInt i)] \<rparr>"

theorem datum_pages_correct_witness:
  "\<exists>ps out. map pack_datum_page [[example_datum ''r/0'' 0, example_datum ''r/1'' 1],
                               [example_datum ''r/2'' 2]] = map Inr ps
     \<and> rechunk_datum_pages ps 2 = out
     \<and> list_all2 datum_eq (concat (map unpack_datum_page out))
         [example_datum ''r/0'' 0, example_datum ''r/1'' 1, example_datum ''r/2'' 2]"
proof -
  let ?dss = "[[example_datum ''r/0'' 0, example_datum ''r/1'' 1], [example_datum ''r/2'' 2]]"
  have "\<forall>ds\<in>set ?dss. ds \<noteq> []" "\<forall>d\<in>set (concat ?dss). dat_resource d = ''r''"
    "uniform_rows (map dat_datum_kwargs (concat ?dss))" "0 < (2::nat)"
    by (simp_all add: uniform_rows_def hwf_def example_datum_def)
  from datum_pages_correct [OF this] show ?thesis
    unfolding concat.simps append.simps by blast
qed

end
