(* ===== verification/Plan_Queue.thy ===== *)
theory Plan_Queue
  imports Prelude
begin

text \<open>
  The plan queue of the queue server (\<open>qs/queue.rs\<close>): the pending items and the history, each
  with a version uid that clients compare to see whether the contents changed. A fresh UUID is
  an argument of every operation that may mint one.

  The locale \<open>versioned\<close> is the contract of such a version uid and what a polling client gets
  from it; it is interpreted on the pending queue (\<open>pq\<close>) and on the history (\<open>ph\<close>).
\<close>

record QueuedItem =
  item_uid :: string
  item_type :: string
  item_name :: string
  item_args :: json
  item_kwargs :: json
  item_meta :: json
  item_user :: "string option"
  item_user_group :: "string option"
  item_result :: "json option"

text \<open>\<open>serde_json::Value::get\<close> with a string key.\<close>

fun json_get :: "json \<Rightarrow> string \<Rightarrow> json option" where
  "json_get (JObject kvs) k = hget kvs k"
| "json_get _ k = None"

definition queued_plan :: "string \<Rightarrow> string \<Rightarrow> json \<Rightarrow> QueuedItem" where
  "queued_plan new_uid name item =
     \<lparr> item_uid = new_uid, item_type = ''plan'', item_name = name,
       item_args = (case json_get item ''args'' of None \<Rightarrow> JArray [] | Some v \<Rightarrow> v),
       item_kwargs = (case json_get item ''kwargs'' of None \<Rightarrow> JObject [] | Some v \<Rightarrow> v),
       item_meta = JNull, item_user = None, item_user_group = None, item_result = None \<rparr>"

definition queued_instruction :: "string \<Rightarrow> string \<Rightarrow> QueuedItem" where
  "queued_instruction new_uid name =
     \<lparr> item_uid = new_uid, item_type = ''instruction'', item_name = name,
       item_args = JNull, item_kwargs = JNull,
       item_meta = JNull, item_user = None, item_user_group = None, item_result = None \<rparr>"

definition plan_args :: "QueuedItem \<Rightarrow> json" where
  "plan_args it = JObject [(''args'', item_args it), (''kwargs'', item_kwargs it)]"

definition with_result :: "QueuedItem \<Rightarrow> json \<Rightarrow> QueuedItem" where
  "with_result it result = it\<lparr> item_result := Some result \<rparr>"

record PlanQueue =
  pq_items :: "QueuedItem list"
  pq_history :: "QueuedItem list"
  pq_queue_uid :: string
  pq_history_uid :: string

definition queue_new :: "string \<Rightarrow> string \<Rightarrow> PlanQueue" where
  "queue_new u v = \<lparr> pq_items = [], pq_history = [], pq_queue_uid = u, pq_history_uid = v \<rparr>"

definition bump_queue_uid :: "string \<Rightarrow> PlanQueue \<Rightarrow> PlanQueue" where
  "bump_queue_uid u q = q\<lparr> pq_queue_uid := u \<rparr>"

definition bump_history_uid :: "string \<Rightarrow> PlanQueue \<Rightarrow> PlanQueue" where
  "bump_history_uid u q = q\<lparr> pq_history_uid := u \<rparr>"

definition index_of_uid :: "QueuedItem list \<Rightarrow> string \<Rightarrow> nat option" where
  "index_of_uid items uid = position (\<lambda>i. item_uid i = uid) items"

definition get_by_uid :: "PlanQueue \<Rightarrow> string \<Rightarrow> QueuedItem option" where
  "get_by_uid q uid = find (\<lambda>i. item_uid i = uid) (pq_items q)"

definition push_back :: "QueuedItem \<Rightarrow> string \<Rightarrow> PlanQueue \<Rightarrow> PlanQueue" where
  "push_back it u q = bump_queue_uid u (q\<lparr> pq_items := pq_items q @ [it] \<rparr>)"

definition pop_front :: "string \<Rightarrow> PlanQueue \<Rightarrow> QueuedItem option \<times> PlanQueue" where
  "pop_front u q =
     (case pq_items q of
        [] \<Rightarrow> (None, q)
      | it # rest \<Rightarrow> (Some it, bump_queue_uid u (q\<lparr> pq_items := rest \<rparr>)))"

definition update_item ::
  "string \<Rightarrow> QueuedItem \<Rightarrow> string \<Rightarrow> PlanQueue \<Rightarrow> QueuedItem option \<times> PlanQueue" where
  "update_item uid replacement u q =
     (case index_of_uid (pq_items q) uid of
        None \<Rightarrow> (None, q)
      | Some pos \<Rightarrow>
          (let new_item = replacement\<lparr> item_uid := uid \<rparr>
           in (Some new_item, bump_queue_uid u (q\<lparr> pq_items := (pq_items q)[pos := new_item] \<rparr>))))"

definition replace_at_uid ::
  "string \<Rightarrow> QueuedItem \<Rightarrow> string \<Rightarrow> PlanQueue \<Rightarrow> QueuedItem option \<times> PlanQueue" where
  "replace_at_uid uid new_item u q =
     (case index_of_uid (pq_items q) uid of
        None \<Rightarrow> (None, q)
      | Some pos \<Rightarrow>
          (Some new_item, bump_queue_uid u (q\<lparr> pq_items := (pq_items q)[pos := new_item] \<rparr>)))"

definition remove_by_uid :: "string \<Rightarrow> string \<Rightarrow> PlanQueue \<Rightarrow> QueuedItem option \<times> PlanQueue" where
  "remove_by_uid uid u q =
     (case index_of_uid (pq_items q) uid of
        None \<Rightarrow> (None, q)
      | Some pos \<Rightarrow>
          (Some (pq_items q ! pos), bump_queue_uid u (q\<lparr> pq_items := remove_nth pos (pq_items q) \<rparr>)))"

definition move_to :: "string \<Rightarrow> nat \<Rightarrow> string \<Rightarrow> PlanQueue \<Rightarrow> QueuedItem option \<times> PlanQueue" where
  "move_to uid dest0 u q =
     (case index_of_uid (pq_items q) uid of
        None \<Rightarrow> (None, q)
      | Some pos \<Rightarrow>
          (let it = pq_items q ! pos;
               items = remove_nth pos (pq_items q);
               dest = min dest0 (length items)
           in (Some it, bump_queue_uid u (q\<lparr> pq_items := insert_nth dest it items \<rparr>))))"

text \<open>The item is removed before the reference is looked up: the early return of a missing
  reference keeps the removal and does not bump the version.\<close>

definition move_before_uid ::
  "string \<Rightarrow> string \<Rightarrow> string \<Rightarrow> PlanQueue \<Rightarrow> QueuedItem option \<times> PlanQueue" where
  "move_before_uid uid ref_uid u q =
     (case index_of_uid (pq_items q) uid of
        None \<Rightarrow> (None, q)
      | Some pos \<Rightarrow>
          (let it = pq_items q ! pos;
               q1 = q\<lparr> pq_items := remove_nth pos (pq_items q) \<rparr>
           in case index_of_uid (pq_items q1) ref_uid of
                None \<Rightarrow> (None, q1)
              | Some ref_pos \<Rightarrow>
                  (Some it, bump_queue_uid u (q1\<lparr> pq_items := insert_nth ref_pos it (pq_items q1) \<rparr>))))"

definition move_after_uid ::
  "string \<Rightarrow> string \<Rightarrow> string \<Rightarrow> PlanQueue \<Rightarrow> QueuedItem option \<times> PlanQueue" where
  "move_after_uid uid ref_uid u q =
     (case index_of_uid (pq_items q) uid of
        None \<Rightarrow> (None, q)
      | Some pos \<Rightarrow>
          (let it = pq_items q ! pos;
               q1 = q\<lparr> pq_items := remove_nth pos (pq_items q) \<rparr>
           in case index_of_uid (pq_items q1) ref_uid of
                None \<Rightarrow> (None, q1)
              | Some ref_pos \<Rightarrow>
                  (Some it, bump_queue_uid u (q1\<lparr> pq_items := insert_nth (ref_pos + 1) it (pq_items q1) \<rparr>))))"

definition push_front :: "QueuedItem \<Rightarrow> string \<Rightarrow> PlanQueue \<Rightarrow> PlanQueue" where
  "push_front it u q = bump_queue_uid u (q\<lparr> pq_items := it # pq_items q \<rparr>)"

definition insert_at :: "nat \<Rightarrow> QueuedItem \<Rightarrow> string \<Rightarrow> PlanQueue \<Rightarrow> PlanQueue" where
  "insert_at idx0 it u q =
     (let idx = min idx0 (length (pq_items q))
      in bump_queue_uid u (q\<lparr> pq_items := insert_nth idx it (pq_items q) \<rparr>))"

definition insert_before_uid :: "string \<Rightarrow> QueuedItem \<Rightarrow> string \<Rightarrow> PlanQueue \<Rightarrow> bool \<times> PlanQueue" where
  "insert_before_uid ref_uid it u q =
     (case index_of_uid (pq_items q) ref_uid of
        Some pos \<Rightarrow> (True, bump_queue_uid u (q\<lparr> pq_items := insert_nth pos it (pq_items q) \<rparr>))
      | None \<Rightarrow> (False, q))"

definition insert_after_uid :: "string \<Rightarrow> QueuedItem \<Rightarrow> string \<Rightarrow> PlanQueue \<Rightarrow> bool \<times> PlanQueue" where
  "insert_after_uid ref_uid it u q =
     (case index_of_uid (pq_items q) ref_uid of
        Some pos \<Rightarrow> (True, bump_queue_uid u (q\<lparr> pq_items := insert_nth (pos + 1) it (pq_items q) \<rparr>))
      | None \<Rightarrow> (False, q))"

definition clear_queue :: "string \<Rightarrow> PlanQueue \<Rightarrow> PlanQueue" where
  "clear_queue u q = (if pq_items q = [] then q else bump_queue_uid u (q\<lparr> pq_items := [] \<rparr>))"

definition push_history :: "QueuedItem \<Rightarrow> string \<Rightarrow> PlanQueue \<Rightarrow> PlanQueue" where
  "push_history it u q = bump_history_uid u (q\<lparr> pq_history := pq_history q @ [it] \<rparr>)"

definition clear_history :: "string \<Rightarrow> PlanQueue \<Rightarrow> PlanQueue" where
  "clear_history u q = (if pq_history q = [] then q else bump_history_uid u (q\<lparr> pq_history := [] \<rparr>))"

lemmas queue_op_defs = push_back_def pop_front_def update_item_def replace_at_uid_def
  remove_by_uid_def move_to_def move_before_uid_def move_after_uid_def push_front_def insert_at_def
  insert_before_uid_def insert_after_uid_def clear_queue_def push_history_def clear_history_def
  bump_queue_uid_def bump_history_uid_def Let_def

section \<open>The operations as one step function\<close>

datatype queue_op =
    PushBack QueuedItem | PopFront | Update string QueuedItem | ReplaceAt string QueuedItem
  | RemoveBy string | MoveTo string nat | MoveBefore string string | MoveAfter string string
  | PushFront QueuedItem | InsertAt nat QueuedItem | InsertBefore string QueuedItem
  | InsertAfter string QueuedItem | ClearQueue | PushHistory QueuedItem | ClearHistory

fun queue_run :: "queue_op \<Rightarrow> string \<Rightarrow> PlanQueue \<Rightarrow> PlanQueue" where
  "queue_run (PushBack it) u q = push_back it u q"
| "queue_run PopFront u q = snd (pop_front u q)"
| "queue_run (Update uid it) u q = snd (update_item uid it u q)"
| "queue_run (ReplaceAt uid it) u q = snd (replace_at_uid uid it u q)"
| "queue_run (RemoveBy uid) u q = snd (remove_by_uid uid u q)"
| "queue_run (MoveTo uid n) u q = snd (move_to uid n u q)"
| "queue_run (MoveBefore uid r) u q = snd (move_before_uid uid r u q)"
| "queue_run (MoveAfter uid r) u q = snd (move_after_uid uid r u q)"
| "queue_run (PushFront it) u q = push_front it u q"
| "queue_run (InsertAt n it) u q = insert_at n it u q"
| "queue_run (InsertBefore r it) u q = snd (insert_before_uid r it u q)"
| "queue_run (InsertAfter r it) u q = snd (insert_after_uid r it u q)"
| "queue_run ClearQueue u q = clear_queue u q"
| "queue_run (PushHistory it) u q = push_history it u q"
| "queue_run ClearHistory u q = clear_history u q"

text \<open>The moves that keep the version honest: those whose reference is another queued item.\<close>

fun ref_queued :: "queue_op \<Rightarrow> PlanQueue \<Rightarrow> bool" where
  "ref_queued (MoveBefore uid r) q = (r \<noteq> uid \<and> r \<in> item_uid ` set (pq_items q))"
| "ref_queued (MoveAfter uid r) q = (r \<noteq> uid \<and> r \<in> item_uid ` set (pq_items q))"
| "ref_queued _ q = True"

primrec run_all :: "('op \<Rightarrow> string \<Rightarrow> 's \<Rightarrow> 's) \<Rightarrow> ('op \<times> string) list \<Rightarrow> 's \<Rightarrow> 's" where
  "run_all run [] s = s"
| "run_all run (o1 # os) s = run_all run os (run (fst o1) (snd o1) s)"

primrec ok_all ::
  "('op \<Rightarrow> string \<Rightarrow> 's \<Rightarrow> 's) \<Rightarrow> ('op \<Rightarrow> 's \<Rightarrow> bool) \<Rightarrow> ('op \<times> string) list \<Rightarrow> 's \<Rightarrow> bool" where
  "ok_all run ok [] s = True"
| "ok_all run ok (o1 # os) s = (ok (fst o1) s \<and> ok_all run ok os (run (fst o1) (snd o1) s))"

locale versioned =
  fixes contents :: "'s \<Rightarrow> 'c"
    and ver :: "'s \<Rightarrow> string"
    and run :: "'op \<Rightarrow> string \<Rightarrow> 's \<Rightarrow> 's"
    and ok :: "'op \<Rightarrow> 's \<Rightarrow> bool"
  assumes honest: "ok p s \<Longrightarrow> contents (run p u s) = contents s \<and> ver (run p u s) = ver s
                              \<or> ver (run p u s) = u"
begin

lemma ver_after: "ok_all run ok os s \<Longrightarrow>
   contents (run_all run os s) = contents s \<and> ver (run_all run os s) = ver s
   \<or> ver (run_all run os s) \<in> set (map snd os)"
proof (induction os arbitrary: s)
  case (Cons o1 os)
  let ?t = "run (fst o1) (snd o1) s"
  have "contents ?t = contents s \<and> ver ?t = ver s \<or> ver ?t = snd o1"
    using Cons.prems honest by simp
  moreover have "contents (run_all run os ?t) = contents ?t \<and> ver (run_all run os ?t) = ver ?t
      \<or> ver (run_all run os ?t) \<in> set (map snd os)"
    using Cons.prems Cons.IH by simp
  ultimately show ?case by auto
qed simp

text \<open>A client that reads the same version before and after has the same contents.\<close>

lemma same_version_same_contents:
  assumes "ok_all run ok os s" and "ver s \<notin> set (map snd os)"
    and "ver (run_all run os s) = ver s"
  shows "contents (run_all run os s) = contents s"
  using ver_after [OF assms(1)] assms(2,3) by auto

end

lemma index_of_uid_Some:
  "index_of_uid items uid = Some pos \<Longrightarrow> pos < length items \<and> item_uid (items ! pos) = uid"
  by (auto simp: index_of_uid_def dest: position_SomeD)

lemma index_of_uid_None: "index_of_uid items uid = None \<longleftrightarrow> uid \<notin> item_uid ` set items"
  by (auto simp: index_of_uid_def position_None_iff)

lemma set_remove_nth: "i < length xs \<Longrightarrow> set xs = insert (xs ! i) (set (remove_nth i xs))"
  using insert_remove_nth [of i xs] set_insert_nth [of i "xs ! i" "remove_nth i xs"] by simp

lemma ref_survives:
  assumes "index_of_uid items uid = Some pos" and "r \<noteq> uid" and "r \<in> item_uid ` set items"
  shows "\<exists>rp. index_of_uid (remove_nth pos items) r = Some rp"
  using assms set_remove_nth [of pos items] index_of_uid_Some [OF assms(1)]
    index_of_uid_None [of "remove_nth pos items" r] by (cases "index_of_uid (remove_nth pos items) r") auto

interpretation pq: versioned pq_items pq_queue_uid queue_run ref_queued
proof
  fix p s u
  assume "ref_queued p s"
  then show "pq_items (queue_run p u s) = pq_items s \<and> pq_queue_uid (queue_run p u s) = pq_queue_uid s
       \<or> pq_queue_uid (queue_run p u s) = u"
    by (cases p)
      (auto simp: queue_op_defs dest: ref_survives split: option.splits list.splits)
qed

interpretation ph: versioned pq_history pq_history_uid queue_run "\<lambda>p s. True"
proof
  fix p s u
  show "pq_history (queue_run p u s) = pq_history s \<and> pq_history_uid (queue_run p u s) = pq_history_uid s
       \<or> pq_history_uid (queue_run p u s) = u"
    by (cases p) (simp_all add: queue_op_defs split: option.splits list.splits)
qed

text \<open>C31. The version uid of the pending queue is honest for every operation except the moves
  with a missing reference: over any sequence of queue operations with fresh UUIDs in which every
  \<open>move_before_uid\<close> / \<open>move_after_uid\<close> names another queued item, a client that finds
  \<open>plan_queue_uid\<close> unchanged finds the pending items unchanged.\<close>

theorem queue_uid_honest:
  assumes "ok_all queue_run ref_queued os q" and "pq_queue_uid q \<notin> set (map snd os)"
    and "pq_queue_uid (run_all queue_run os q) = pq_queue_uid q"
  shows "pq_items (run_all queue_run os q) = pq_items q"
  using assms by (rule pq.same_version_same_contents)

definition sample_queue :: PlanQueue where
  "sample_queue = \<lparr> pq_items = [queued_plan ''a'' ''scan'' JNull, queued_plan ''b'' ''count'' JNull,
     queued_plan ''c'' ''grid'' JNull], pq_history = [], pq_queue_uid = ''q0'', pq_history_uid = ''h0'' \<rparr>"

theorem queue_uid_honest_witness:
  "pq_items (run_all queue_run [(PushHistory (queued_plan ''x'' ''scan'' JNull), ''u1''), (RemoveBy ''zz'', ''u2'')]
      sample_queue) = pq_items sample_queue"
  using queue_uid_honest [of "[(PushHistory (queued_plan ''x'' ''scan'' JNull), ''u1''), (RemoveBy ''zz'', ''u2'')]"
      sample_queue]
  by (simp add: sample_queue_def queue_op_defs queued_plan_def index_of_uid_def)

text \<open>The history's version uid is honest for every operation.\<close>

theorem history_uid_honest:
  assumes "pq_history_uid q \<notin> set (map snd os)"
    and "pq_history_uid (run_all queue_run os q) = pq_history_uid q"
  shows "pq_history (run_all queue_run os q) = pq_history q"
proof -
  have "ok_all queue_run (\<lambda>p s. True) os q" by (induction os arbitrary: q) auto
  then show ?thesis using assms by (rule ph.same_version_same_contents)
qed

theorem history_uid_honest_witness:
  "pq_history (run_all queue_run [(PopFront, ''u1''), (ClearHistory, ''u2'')] sample_queue)
     = pq_history sample_queue"
  using history_uid_honest [of sample_queue "[(PopFront, ''u1''), (ClearHistory, ''u2'')]"]
  by (simp add: sample_queue_def queue_op_defs)

section \<open>Moves\<close>

lemma remove_first_uid:
  assumes "distinct (map item_uid items)" and "index_of_uid items uid = Some pos"
  shows "remove_nth pos items = filter (\<lambda>i. item_uid i \<noteq> uid) items"
  using assms
proof (induction items arbitrary: pos)
  case (Cons x xs)
  show ?case
  proof (cases "item_uid x = uid")
    case True
    then have "filter (\<lambda>i. item_uid i \<noteq> uid) xs = xs"
      using Cons.prems(1) by (simp add: filter_id_conv image_iff) metis
    then show ?thesis using Cons.prems True by (simp add: index_of_uid_def remove_nth_def)
  next
    case False
    then obtain p where "pos = Suc p" "index_of_uid xs uid = Some p"
      using Cons.prems(2) by (auto simp: index_of_uid_def)
    then show ?thesis using Cons.IH [of p] Cons.prems(1) False by (simp add: remove_nth_def)
  qed
qed (simp add: index_of_uid_def)

text \<open>C32. A move that succeeds puts the item immediately before (after) its reference, keeps every
  other item in its order, and publishes a new version; it succeeds whenever both uids are queued
  and differ.\<close>

theorem move_places_item:
  assumes "distinct (map item_uid (pq_items q))" and "uid \<in> item_uid ` set (pq_items q)"
    and "r \<in> item_uid ` set (pq_items q)" and "r \<noteq> uid"
  shows "\<exists>xs it rf ys. xs @ rf # ys = filter (\<lambda>i. item_uid i \<noteq> uid) (pq_items q)
     \<and> item_uid it = uid \<and> it \<in> set (pq_items q) \<and> item_uid rf = r
     \<and> move_before_uid uid r u q = (Some it, q\<lparr> pq_items := xs @ it # rf # ys, pq_queue_uid := u \<rparr>)
     \<and> move_after_uid uid r u q = (Some it, q\<lparr> pq_items := xs @ rf # it # ys, pq_queue_uid := u \<rparr>)"
proof -
  obtain pos where pos: "index_of_uid (pq_items q) uid = Some pos"
    using assms(2) index_of_uid_None [of "pq_items q" uid] by (cases "index_of_uid (pq_items q) uid") auto
  let ?it = "pq_items q ! pos" and ?rest = "remove_nth pos (pq_items q)"
  obtain rp where rp: "index_of_uid ?rest r = Some rp" using ref_survives [OF pos assms(4,3)] by blast
  have len: "rp < length ?rest" "item_uid (?rest ! rp) = r" using index_of_uid_Some [OF rp] by auto
  have split: "?rest = take rp ?rest @ ?rest ! rp # drop (Suc rp) ?rest"
    using len(1) by (rule id_take_nth_drop)
  have before: "insert_nth rp ?it ?rest = take rp ?rest @ ?it # ?rest ! rp # drop (Suc rp) ?rest"
    using len(1) by (simp add: insert_nth_def Cons_nth_drop_Suc)
  have after: "insert_nth (Suc rp) ?it ?rest = take rp ?rest @ ?rest ! rp # ?it # drop (Suc rp) ?rest"
    using len(1) by (simp add: insert_nth_def take_Suc_conv_app_nth)
  show ?thesis
    using pos rp len before after split index_of_uid_Some [OF pos] remove_first_uid [OF assms(1) pos]
    by (intro exI [of _ "take rp ?rest"] exI [of _ ?it] exI [of _ "?rest ! rp"]
              exI [of _ "drop (Suc rp) ?rest"])
      (simp add: move_before_uid_def move_after_uid_def bump_queue_uid_def Let_def)
qed

theorem move_places_item_witness:
  "\<exists>xs it rf ys. xs @ rf # ys = filter (\<lambda>i. item_uid i \<noteq> ''a'') (pq_items sample_queue)
     \<and> move_before_uid ''a'' ''c'' ''u'' sample_queue
         = (Some it, sample_queue\<lparr> pq_items := xs @ it # rf # ys, pq_queue_uid := ''u'' \<rparr>)"
  using move_places_item [of sample_queue "''a''" "''c''" "''u''"]
  by (force simp: sample_queue_def queued_plan_def)

text \<open>C33. A move whose reference is missing loses the item: \<open>move_before_uid\<close> and
  \<open>move_after_uid\<close> report that nothing was found, yet the item is gone from the queue, and the
  version uid still claims that the queue did not change.\<close>

theorem move_missing_ref_loses_item:
  assumes "distinct (map item_uid (pq_items q))" and "uid \<in> item_uid ` set (pq_items q)"
    and "r = uid \<or> r \<notin> item_uid ` set (pq_items q)"
  shows "move_before_uid uid r u q
           = (None, q\<lparr> pq_items := filter (\<lambda>i. item_uid i \<noteq> uid) (pq_items q) \<rparr>)
       \<and> move_after_uid uid r u q
           = (None, q\<lparr> pq_items := filter (\<lambda>i. item_uid i \<noteq> uid) (pq_items q) \<rparr>)
       \<and> length (filter (\<lambda>i. item_uid i \<noteq> uid) (pq_items q)) < length (pq_items q)"
proof -
  obtain pos where pos: "index_of_uid (pq_items q) uid = Some pos"
    using assms(2) index_of_uid_None [of "pq_items q" uid] by (cases "index_of_uid (pq_items q) uid") auto
  have "index_of_uid (filter (\<lambda>i. item_uid i \<noteq> uid) (pq_items q)) r = None"
    using assms(3) by (auto simp: index_of_uid_None)
  moreover have "length (filter (\<lambda>i. item_uid i \<noteq> uid) (pq_items q)) < length (pq_items q)"
    using assms(2) by (auto intro: length_filter_less)
  ultimately show ?thesis
    using pos remove_first_uid [OF assms(1) pos]
    by (simp add: move_before_uid_def move_after_uid_def Let_def)
qed

theorem move_missing_ref_loses_item_witness:
  "move_before_uid ''a'' ''gone'' ''u'' sample_queue
     = (None, sample_queue\<lparr> pq_items := filter (\<lambda>i. item_uid i \<noteq> ''a'') (pq_items sample_queue) \<rparr>)"
  using move_missing_ref_loses_item [of sample_queue "''a''" "''gone''" "''u''"]
  by (simp add: sample_queue_def queued_plan_def)

end
