(* ===== verification/Manager_State.thy ===== *)
theory Manager_State
  imports Plan_Queue
begin

text \<open>
  The manager's shared state (\<open>qs/state.rs\<close>): the public engine state, the lock with its version
  uid, the snapshot record, and the conversion of
  Unix seconds to a calendar date behind the lock's ISO 8601 timestamp.
\<close>

datatype EState =
    EnvironmentClosed | EIdle | ExecutingQueue | EPaused | EAborting
  | CreatingEnvironment | ClosingEnvironment | DestroyingEnvironment

fun estate_as_str :: "EState \<Rightarrow> string" where
  "estate_as_str EnvironmentClosed = ''environment_closed''"
| "estate_as_str EIdle = ''idle''"
| "estate_as_str ExecutingQueue = ''executing_queue''"
| "estate_as_str EPaused = ''paused''"
| "estate_as_str EAborting = ''aborting''"
| "estate_as_str CreatingEnvironment = ''creating_environment''"
| "estate_as_str ClosingEnvironment = ''closing_environment''"
| "estate_as_str DestroyingEnvironment = ''destroying_environment''"

section \<open>Calendar\<close>

definition leap :: "int \<Rightarrow> bool" where
  "leap y \<longleftrightarrow> (y mod 4 = 0 \<and> y mod 100 \<noteq> 0) \<or> y mod 400 = 0"

definition year_days :: "int \<Rightarrow> int" where
  "year_days y = (if leap y then 366 else 365)"

definition month_days :: "int \<Rightarrow> int list" where
  "month_days y = [31, if leap y then 29 else 28, 31, 30, 31, 30, 31, 31, 30, 31, 30, 31]"

text \<open>The year loop and the month loop of \<open>secs_to_ymdhms\<close>. The source counts years in an \<open>i32\<close>, here the year is an
  unbounded integer: the two agree as long as the year stays below \<open>2 ^ 31\<close>, which it does for every clock up to
  \<open>6 * 10 ^ 16\<close> seconds (the last clause of the theorem below).\<close>

function year_loop :: "int \<Rightarrow> int \<Rightarrow> int \<times> int" where
  "year_loop y d = (if d < year_days y then (y, d) else year_loop (y + 1) (d - year_days y))"
  by auto
termination
  by (relation "measure (\<lambda>(y, d). nat d)") (auto simp: year_days_def split: if_splits)

declare year_loop.simps [simp del]

fun month_loop :: "int \<Rightarrow> int \<Rightarrow> int list \<Rightarrow> int \<times> int" where
  "month_loop mo d [] = (mo, d)"
| "month_loop mo d (md # mds) = (if d < md then (mo, d) else month_loop (mo + 1) (d - md) mds)"

definition secs_to_ymdhms :: "int \<Rightarrow> int \<times> int \<times> int \<times> int \<times> int \<times> int" where
  "secs_to_ymdhms secs =
     (let days = secs div 86400;
          r = secs mod 86400;
          (h, mi, s) = (r div 3600, (r div 60) mod 60, r mod 60);
          (y, d) = year_loop 1970 days;
          (mo, d') = month_loop 1 d (month_days y)
      in (y, mo, d' + 1, h, mi, s))"

definition pad0 :: "nat \<Rightarrow> int \<Rightarrow> string" where
  "pad0 w n = (let s = show_nat (nat n) in replicate (w - length s) CHR ''0'' @ s)"

definition now_iso8601 :: "int \<Rightarrow> string" where
  "now_iso8601 secs =
     (case secs_to_ymdhms secs of (y, mo, d, h, mi, s) \<Rightarrow>
        pad0 4 y @ ''-'' @ pad0 2 mo @ ''-'' @ pad0 2 d @ ''T'' @ pad0 2 h @ '':'' @ pad0 2 mi @ '':''
          @ pad0 2 s @ ''Z'')"

text \<open>Days from 1 January 1970 to 1 January of a year.\<close>

definition days_to_year :: "int \<Rightarrow> int" where
  "days_to_year y = (\<Sum>k\<in>{1970..<y}. year_days k)"

lemma days_to_year_step: "1970 \<le> y \<Longrightarrow> days_to_year (y + 1) = days_to_year y + year_days y"
proof -
  assume "1970 \<le> y"
  then have "{1970..<y + 1} = insert y {1970..<y}" by auto
  then show ?thesis by (simp add: days_to_year_def)
qed

lemma year_loop_correct:
  "0 \<le> d \<Longrightarrow> 1970 \<le> y \<Longrightarrow> year_loop y d = (y', d') \<Longrightarrow>
   y \<le> y' \<and> 0 \<le> d' \<and> d' < year_days y' \<and> days_to_year y' + d' = days_to_year y + d
   \<and> 365 * (y' - y) \<le> d"
proof (induction y d arbitrary: y' d' rule: year_loop.induct)
  case (1 y d)
  show ?case
  proof (cases "d < year_days y")
    case True
    then show ?thesis using "1.prems" by (simp add: year_loop.simps [of y d])
  next
    case False
    then have "year_loop (y + 1) (d - year_days y) = (y', d')"
      using "1.prems" by (simp add: year_loop.simps [of y d])
    moreover have "365 \<le> year_days y" by (simp add: year_days_def)
    ultimately show ?thesis
      using "1.IH" [OF False, of y' d'] "1.prems" False days_to_year_step [of y] by auto
  qed
qed

lemma month_loop_correct:
  "0 \<le> d \<Longrightarrow> d < sum_list mds \<Longrightarrow> month_loop mo d mds = (mo', d') \<Longrightarrow>
   mo \<le> mo' \<and> mo' < mo + int (length mds) \<and> 0 \<le> d' \<and> d' < mds ! nat (mo' - mo)
   \<and> sum_list (take (nat (mo' - mo)) mds) + d' = d"
proof (induction mo d mds arbitrary: mo' d' rule: month_loop.induct)
  case (2 mo d md mds)
  show ?case
  proof (cases "d < md")
    case True
    then show ?thesis using "2.prems" by simp
  next
    case False
    then have ih: "mo + 1 \<le> mo' \<and> mo' < mo + 1 + int (length mds) \<and> 0 \<le> d' \<and> d' < mds ! nat (mo' - (mo + 1))
      \<and> sum_list (take (nat (mo' - (mo + 1))) mds) + d' = d - md"
      using "2.IH" [OF False, of mo' d'] "2.prems" by auto
    then have "nat (mo' - mo) = Suc (nat (mo' - (mo + 1)))" by linarith
    then show ?thesis using ih by auto
  qed
qed auto

lemma month_days_sum: "sum_list (month_days y) = year_days y"
  by (simp add: month_days_def year_days_def)

lemma time_of_day:
  fixes r :: int
  assumes "0 \<le> r" and "r < 86400"
  shows "0 \<le> r div 3600" "r div 3600 < 24" "0 \<le> r div 60 mod 60" "r div 60 mod 60 < 60"
    "r div 3600 * 3600 + r div 60 mod 60 * 60 + r mod 60 = r"
proof -
  have "r div 3600 = r div 60 div 60" by (simp add: zdiv_zmult2_eq [symmetric])
  moreover have "r div 60 div 60 * 60 + r div 60 mod 60 = r div 60" "r div 60 * 60 + r mod 60 = r" by simp_all
  ultimately show "r div 3600 * 3600 + r div 60 mod 60 * 60 + r mod 60 = r" by linarith
qed (use assms in auto)

text \<open>C40. The timestamp is the right date: for every non-negative number of seconds the result is
  a valid calendar date and time of day from 1970 on, and it denotes exactly the given second.
  Both loops terminate, and the year stays far below the range of \<open>i32\<close> for every clock below
  \<open>6 * 10^16\<close> seconds.\<close>

theorem secs_to_ymdhms_correct:
  assumes "0 \<le> secs" and "secs_to_ymdhms secs = (y, mo, d, h, mi, s)"
  shows "1970 \<le> y \<and> 1 \<le> mo \<and> mo \<le> 12 \<and> 1 \<le> d \<and> d \<le> month_days y ! nat (mo - 1)
     \<and> 0 \<le> h \<and> h < 24 \<and> 0 \<le> mi \<and> mi < 60 \<and> 0 \<le> s \<and> s < 60
     \<and> ((days_to_year y + sum_list (take (nat (mo - 1)) (month_days y)) + (d - 1)) * 24 + h) * 3600
         + mi * 60 + s = secs
     \<and> (secs \<le> 6 * 10 ^ 16 \<longrightarrow> y < 2 ^ 31)"
proof -
  let ?days = "secs div 86400" and ?r = "secs mod 86400"
  obtain y1 d1 where yl: "year_loop 1970 ?days = (y1, d1)" by fastforce
  obtain mo1 d2 where ml: "month_loop 1 d1 (month_days y1) = (mo1, d2)" by fastforce
  have eq: "y = y1" "mo = mo1" "d = d2 + 1" "h = ?r div 3600" "mi = (?r div 60) mod 60" "s = ?r mod 60"
    using assms(2) yl ml by (auto simp: secs_to_ymdhms_def Let_def)
  have Y: "1970 \<le> y1" "0 \<le> d1" "d1 < year_days y1" "days_to_year y1 + d1 = ?days" "365 * (y1 - 1970) \<le> ?days"
    using year_loop_correct [OF _ _ yl] assms(1) by (auto simp: days_to_year_def)
  have M: "1 \<le> mo1 \<and> mo1 < 1 + int (length (month_days y1)) \<and> 0 \<le> d2 \<and> d2 < month_days y1 ! nat (mo1 - 1)
      \<and> sum_list (take (nat (mo1 - 1)) (month_days y1)) + d2 = d1"
    using month_loop_correct [OF Y(2) _ ml] Y(3) by (simp add: month_days_sum)
  have T: "0 \<le> h" "h < 24" "0 \<le> mi" "mi < 60" "0 \<le> s" "s < 60" "h * 3600 + mi * 60 + s = ?r"
    unfolding eq using time_of_day [of ?r] by simp_all
  have "secs = ?days * 86400 + ?r" by simp
  moreover have "days_to_year y + sum_list (take (nat (mo - 1)) (month_days y)) + (d - 1) = ?days"
    unfolding eq(1-3) using M Y(4) by linarith
  ultimately have "((days_to_year y + sum_list (take (nat (mo - 1)) (month_days y)) + (d - 1)) * 24 + h) * 3600
      + mi * 60 + s = secs"
    using T(7) by (simp only: distrib_right)
  moreover have "secs \<le> 6 * 10 ^ 16 \<longrightarrow> y < 2 ^ 31" using Y(5) eq(1) by auto
  moreover have "length (month_days y1) = 12" by (simp add: month_days_def)
  then have "1970 \<le> y \<and> 1 \<le> mo \<and> mo \<le> 12 \<and> 1 \<le> d \<and> d \<le> month_days y ! nat (mo - 1)"
    unfolding eq(1-3) using M Y(1) by simp
  ultimately show ?thesis using T(1-6) by blast
qed

theorem secs_to_ymdhms_correct_witness: "(1970 :: int) \<le> fst (secs_to_ymdhms 951782400)"
  using secs_to_ymdhms_correct [of 951782400 "fst (secs_to_ymdhms 951782400)"]
  by (cases "secs_to_ymdhms 951782400") auto

section \<open>The lock\<close>

record LockInfo =
  lk_queue :: bool
  lk_environment :: bool
  lk_user :: "string option"
  lk_note :: "string option"
  lk_time :: "string option"
  lk_uid :: string
  lk_key_hash :: "u64 option"

definition unlocked :: "string \<Rightarrow> LockInfo" where
  "unlocked u = \<lparr> lk_queue = False, lk_environment = False, lk_user = None, lk_note = None,
     lk_time = None, lk_uid = u, lk_key_hash = None \<rparr>"

definition lock ::
  "bool \<Rightarrow> bool \<Rightarrow> string option \<Rightarrow> string option \<Rightarrow> u64 \<Rightarrow> int \<Rightarrow> string \<Rightarrow> LockInfo \<Rightarrow> LockInfo" where
  "lock environment queue user note key_hash secs u l =
     l\<lparr> lk_environment := environment, lk_queue := queue, lk_user := user, lk_note := note,
        lk_time := Some (now_iso8601 secs), lk_key_hash := Some key_hash, lk_uid := u \<rparr>"

definition lock_clear :: "string \<Rightarrow> LockInfo \<Rightarrow> LockInfo" where
  "lock_clear u l =
     l\<lparr> lk_environment := False, lk_queue := False, lk_user := None, lk_note := None,
        lk_time := None, lk_key_hash := None, lk_uid := u \<rparr>"

definition is_locked :: "LockInfo \<Rightarrow> bool" where
  "is_locked l \<longleftrightarrow> lk_environment l \<or> lk_queue l"

section \<open>The shared snapshot\<close>

record ManagerState =
  ms_state :: "EState option"
  ms_current_run_uid :: "string option"
  ms_current_item :: "QueuedItem option"
  ms_queue_len :: nat
  ms_history_len :: nat
  ms_plans_run :: u64
  ms_plans_failed :: u64
  ms_re_runs :: "(string \<times> bool) list"
  ms_re_metadata :: "(string, json) hmap"
  ms_queue_stop_pending :: bool
  ms_pause_pending :: bool
  ms_worker_background_tasks :: u64
  ms_queue_autostart_enabled :: bool
  ms_queue_mode :: "(string, json) hmap"
  ms_lock :: LockInfo

definition manager_default :: "string \<Rightarrow> ManagerState" where
  "manager_default u =
     \<lparr> ms_state = None, ms_current_run_uid = None, ms_current_item = None, ms_queue_len = 0,
       ms_history_len = 0, ms_plans_run = 0, ms_plans_failed = 0, ms_re_runs = [],
       ms_re_metadata = [], ms_queue_stop_pending = False, ms_pause_pending = False,
       ms_worker_background_tasks = 0, ms_queue_autostart_enabled = False,
       ms_queue_mode = [(''loop'', JBool False)], ms_lock = unlocked u \<rparr>"

definition manager_initial :: "string \<Rightarrow> ManagerState" where
  "manager_initial u = (manager_default u)\<lparr> ms_state := Some EnvironmentClosed \<rparr>"

end
