(* ===== verification/Task_Slot.thy ===== *)
theory Task_Slot
  imports Prelude
begin

text \<open>
  The generation-stamped claim on queue execution (\<open>qs/task_slot.rs\<close>). The slot's mutex makes
  every operation atomic, so the concurrent behaviour of dispatchers and workers is the step
  relation \<open>slot_step\<close> (an action of \<open>slot_act\<close>): any live guard may be dropped, any spawned worker may register its abort
  handle, and a forced \<open>take\<close> may come at any time. Abort handles are numbers; generations are
  \<open>u64\<close> words, and a claim step requires that the counter has not reached its maximum.
\<close>

type_synonym abort_handle = nat

record QueueTaskSlot =
  sl_next_gen :: u64
  sl_entry :: "(u64 \<times> abort_handle option) option"
  sl_worker_finished :: bool

definition slot_new :: QueueTaskSlot where
  "slot_new = \<lparr> sl_next_gen = 0, sl_entry = None, sl_worker_finished = False \<rparr>"

text \<open>\<open>claim\<close> returns the generation of the guard \<open>SlotClaim\<close> it hands out.\<close>

definition claim :: "QueueTaskSlot \<Rightarrow> u64 option \<times> QueueTaskSlot" where
  "claim sl =
     (if sl_entry sl \<noteq> None then (None, sl)
      else (let generation = sl_next_gen sl
            in (Some generation,
                sl\<lparr> sl_next_gen := generation + 1, sl_entry := Some (generation, None) \<rparr>)))"

text \<open>\<open>register\<close> returns the handle it aborts, if any.\<close>

definition register ::
  "u64 \<Rightarrow> abort_handle \<Rightarrow> QueueTaskSlot \<Rightarrow> abort_handle option \<times> QueueTaskSlot" where
  "register generation h sl =
     (case sl_entry sl of
        Some (g, old) \<Rightarrow>
          if g = generation then (None, sl\<lparr> sl_entry := Some (g, Some h) \<rparr>) else (Some h, sl)
      | None \<Rightarrow> (Some h, sl))"

definition slot_take :: "QueueTaskSlot \<Rightarrow> abort_handle option \<times> QueueTaskSlot" where
  "slot_take sl =
     (case sl_entry sl of None \<Rightarrow> None | Some (g, h) \<Rightarrow> h, sl\<lparr> sl_entry := None \<rparr>)"

definition is_active :: "QueueTaskSlot \<Rightarrow> bool" where
  "is_active sl = (sl_entry sl \<noteq> None)"

definition finish :: "u64 \<Rightarrow> QueueTaskSlot \<Rightarrow> QueueTaskSlot" where
  "finish generation sl =
     (case sl_entry sl of
        Some (g, h) \<Rightarrow>
          if g = generation then sl\<lparr> sl_entry := None, sl_worker_finished := True \<rparr> else sl
      | None \<Rightarrow> sl)"

definition take_worker_finished :: "QueueTaskSlot \<Rightarrow> bool \<times> QueueTaskSlot" where
  "take_worker_finished sl = (sl_worker_finished sl, sl\<lparr> sl_worker_finished := False \<rparr>)"

definition drop_claim :: "u64 \<Rightarrow> QueueTaskSlot \<Rightarrow> QueueTaskSlot" where
  "drop_claim generation sl = finish generation sl"

section \<open>Dispatchers and workers around the slot\<close>

text \<open>\<open>sy_live\<close> are the generations whose guard is alive (the worker that holds it has not ended),
  \<open>sy_registered\<close> the handles registered so far, \<open>sy_aborted\<close> the handles aborted by \<open>register\<close> or
  handed back by \<open>take\<close> for aborting.\<close>

record slot_sys =
  sy_slot :: QueueTaskSlot
  sy_live :: "u64 set"
  sy_registered :: "u64 \<rightharpoonup> abort_handle"
  sy_aborted :: "abort_handle set"

text \<open>What happens: a claim that succeeds, a worker's registration, a forced take, the end of a guard, a
  poll of the finished flag.\<close>

datatype slot_action = Claimed u64 | Registered u64 abort_handle | Taken | Dropped u64 | Polled

inductive slot_act :: "slot_action \<Rightarrow> slot_sys \<Rightarrow> slot_sys \<Rightarrow> bool" where
  s_claim: "claim (sy_slot s) = (Some g, sl) \<Longrightarrow> sl_next_gen (sy_slot s) \<noteq> - 1 \<Longrightarrow>
    slot_act (Claimed g) s (s\<lparr> sy_slot := sl, sy_live := insert g (sy_live s) \<rparr>)"
| s_register: "g < sl_next_gen (sy_slot s) \<Longrightarrow> sy_registered s g = None \<Longrightarrow>
    register g h (sy_slot s) = (a, sl) \<Longrightarrow>
    slot_act (Registered g h) s (s\<lparr> sy_slot := sl, sy_registered := (sy_registered s)(g \<mapsto> h),
                    sy_aborted := set_option a \<union> sy_aborted s \<rparr>)"
| s_take: "slot_take (sy_slot s) = (a, sl) \<Longrightarrow>
    slot_act Taken s (s\<lparr> sy_slot := sl, sy_aborted := set_option a \<union> sy_aborted s \<rparr>)"
| s_drop: "g \<in> sy_live s \<Longrightarrow>
    slot_act (Dropped g) s (s\<lparr> sy_slot := drop_claim g (sy_slot s), sy_live := sy_live s - {g} \<rparr>)"
| s_poll: "take_worker_finished (sy_slot s) = (b, sl) \<Longrightarrow> slot_act Polled s (s\<lparr> sy_slot := sl \<rparr>)"

definition slot_step :: "slot_sys \<Rightarrow> slot_sys \<Rightarrow> bool" where
  "slot_step s t \<longleftrightarrow> (\<exists>act. slot_act act s t)"

inductive slot_acts :: "slot_action list \<Rightarrow> slot_sys \<Rightarrow> slot_sys \<Rightarrow> bool" where
  slot_acts_Nil: "slot_acts [] s s"
| slot_acts_Cons: "slot_act act s t \<Longrightarrow> slot_acts acts t u \<Longrightarrow> slot_acts (act # acts) s u"

lemma slot_stepI: "slot_act act s t \<Longrightarrow> slot_step s t"
  by (auto simp: slot_step_def)

definition slot_init :: "slot_sys \<Rightarrow> bool" where
  "slot_init s \<longleftrightarrow> s = \<lparr> sy_slot = slot_new, sy_live = {}, sy_registered = (\<lambda>_. None), sy_aborted = {} \<rparr>"

interpretation sls: transition_system slot_init slot_step .

definition slot_inv :: "slot_sys \<Rightarrow> bool" where
  "slot_inv s \<longleftrightarrow>
     (\<forall>g\<in>sy_live s. g < sl_next_gen (sy_slot s))
     \<and> (\<forall>g h. sy_registered s g = Some h \<longrightarrow> g < sl_next_gen (sy_slot s))
     \<and> (\<forall>g ho. sl_entry (sy_slot s) = Some (g, ho) \<longrightarrow> g \<in> sy_live s \<and> sy_registered s g = ho)
     \<and> (\<forall>g h. sy_registered s g = Some h \<longrightarrow> g \<in> sy_live s \<longrightarrow>
           sl_entry (sy_slot s) = Some (g, Some h) \<or> h \<in> sy_aborted s)"

lemma u64_less_Suc: "(n :: u64) \<noteq> - 1 \<Longrightarrow> n < n + 1"
  using inc_less_eq_triv_imp [of n] by (auto simp: linorder_not_le [symmetric])

lemma u64_less_trans_Suc: "(n :: u64) \<noteq> - 1 \<Longrightarrow> g < n \<Longrightarrow> g < n + 1"
  using u64_less_Suc less_trans by blast

lemma slot_act_inv: "slot_act act s t \<Longrightarrow> slot_inv s \<Longrightarrow> slot_inv t"
proof (induction rule: slot_act.induct)
  case (s_claim s g sl)
  then show ?case
    by (auto simp: slot_inv_def claim_def Let_def u64_less_Suc u64_less_trans_Suc split: if_splits)
next
  case (s_register g s h a sl)
  then show ?case
    by (auto simp: slot_inv_def register_def fun_upd_def split: option.splits if_splits prod.splits)
next
  case (s_take s a sl)
  then show ?case
    by (auto simp: slot_inv_def slot_take_def split: option.splits if_splits prod.splits)
next
  case (s_drop g s)
  then show ?case
    by (auto simp: slot_inv_def drop_claim_def finish_def split: option.splits if_splits prod.splits) blast+
next
  case (s_poll s b sl)
  then show ?case by (clarsimp simp: slot_inv_def take_worker_finished_def)
qed

lemma slot_reach_inv: "sls.reach s \<Longrightarrow> slot_inv s"
proof (rule sls.reach_invariant)
  show "slot_init s \<Longrightarrow> slot_inv s" for s by (simp add: slot_init_def slot_inv_def slot_new_def)
qed (auto simp: slot_step_def intro: slot_act_inv)

text \<open>C34. No untracked worker: in every reachable state, a worker that registered its abort handle
  and has not ended is either the slot's current entry, so that a forced \<open>take\<close> finds it, or its
  handle has already been aborted (or handed back for aborting). This covers the race in which a
  forced \<open>take\<close> and a new \<open>claim\<close> come between a worker's spawn and its registration.\<close>

theorem no_untracked_worker:
  assumes "sls.reach s" and "sy_registered s g = Some h" and "g \<in> sy_live s"
  shows "sl_entry (sy_slot s) = Some (g, Some h) \<or> h \<in> sy_aborted s"
  using slot_reach_inv [OF assms(1)] assms(2,3) by (auto simp: slot_inv_def)

text \<open>One action that is neither a take nor the end of the current guard.\<close>

lemma slot_act_keeps:
  assumes "slot_act act s t" and "sl_entry (sy_slot s) = Some (g, h)"
    and "act \<noteq> Taken" and "act \<noteq> Dropped g"
  shows "(\<forall>g'. act \<noteq> Claimed g')
    \<and> sl_entry (sy_slot t) = Some (g, case act of Registered g' h' \<Rightarrow> if g' = g then Some h' else h | _ \<Rightarrow> h)
    \<and> sl_next_gen (sy_slot t) = sl_next_gen (sy_slot s)"
  using assms
  by (cases rule: slot_act.cases)
    (auto simp: claim_def register_def drop_claim_def finish_def take_worker_finished_def
      split: option.splits if_splits prod.splits)

text \<open>The handle the entry of generation \<open>g\<close> holds after a sequence of actions: the last one its own
  worker registered.\<close>

fun handle_after :: "u64 \<Rightarrow> slot_action list \<Rightarrow> abort_handle option \<Rightarrow> abort_handle option" where
  "handle_after g [] h = h"
| "handle_after g (act # acts) h =
     handle_after g acts (case act of Registered g' h' \<Rightarrow> if g' = g then Some h' else h | _ \<Rightarrow> h)"

text \<open>C35. A claim is released only by its own guard or by a forced \<open>take\<close>, and every other claim is
  refused meanwhile. Take any sequence of actions that contains neither a \<open>take\<close> nor the end of the
  guard of the current generation \<open>g\<close>: exits of stale workers, registrations of any
  generation, late ones of revoked claims included, and polls. Then no claim succeeds in
  it; at its end \<open>g\<close> is still the current generation, its entry holds the last handle that its own
  worker registered (a stale registration neither clears nor replaces it), no
  generation has been used up, and \<open>claim\<close> is refused and changes nothing.\<close>

theorem claim_is_exclusive:
  assumes "slot_acts acts s t" and "sl_entry (sy_slot s) = Some (g, h)"
    and "Taken \<notin> set acts" and "Dropped g \<notin> set acts"
  shows "(\<forall>g'. Claimed g' \<notin> set acts)
    \<and> sl_entry (sy_slot t) = Some (g, handle_after g acts h)
    \<and> sl_next_gen (sy_slot t) = sl_next_gen (sy_slot s)
    \<and> claim (sy_slot t) = (None, sy_slot t)"
  using assms
proof (induction arbitrary: h rule: slot_acts.induct)
  case (slot_acts_Nil s)
  then show ?case by (simp add: claim_def)
next
  case (slot_acts_Cons act s t acts u)
  have step: "\<forall>g'. act \<noteq> Claimed g'"
    "sl_entry (sy_slot t) = Some (g, case act of Registered g' h' \<Rightarrow> if g' = g then Some h' else h | _ \<Rightarrow> h)"
    "sl_next_gen (sy_slot t) = sl_next_gen (sy_slot s)"
    using slot_act_keeps [OF slot_acts_Cons.hyps(1) slot_acts_Cons.prems(1)] slot_acts_Cons.prems(2,3)
    by auto
  show ?case
    using slot_acts_Cons.IH [OF step(2)] slot_acts_Cons.prems(2,3) step(1,3) by auto
qed

text \<open>A run through the race: claim 0 is revoked before its worker registers, claim 1 follows.\<close>

definition slot_start :: slot_sys where
  "slot_start = \<lparr> sy_slot = slot_new, sy_live = {}, sy_registered = (\<lambda>_. None), sy_aborted = {} \<rparr>"

definition slot_raced :: slot_sys where
  "slot_raced = \<lparr> sy_slot = \<lparr> sl_next_gen = 2, sl_entry = Some (1, None), sl_worker_finished = False \<rparr>,
     sy_live = {0, 1}, sy_registered = [0 \<mapsto> 7], sy_aborted = {7} \<rparr>"

lemma slot_raced_reach: "sls.reach slot_raced"
proof -
  let ?s0 = slot_start
  let ?s1 = "?s0\<lparr> sy_slot := snd (claim slot_new), sy_live := {0} \<rparr>"
  let ?s2 = "?s1\<lparr> sy_slot := snd (slot_take (sy_slot ?s1)) \<rparr>"
  let ?s3 = "?s2\<lparr> sy_slot := snd (claim (sy_slot ?s2)), sy_live := {0, 1} \<rparr>"
  have "sls.reach ?s0" by (rule sls.reach_init) (simp add: slot_init_def slot_start_def)
  moreover have "slot_act (Claimed 0) ?s0 ?s1"
    using slot_act.s_claim [of ?s0 0 "snd (claim slot_new)"]
    by (simp add: slot_start_def claim_def slot_new_def)
  moreover have "slot_act (Taken) ?s1 ?s2"
    using slot_act.s_take [of ?s1 None] by (simp add: slot_start_def claim_def slot_new_def slot_take_def)
  moreover have "slot_act (Claimed 1) ?s2 ?s3"
    using slot_act.s_claim [of ?s2 1] by (simp add: slot_start_def claim_def slot_new_def slot_take_def insert_commute)
  moreover have "slot_act (Registered 0 7) ?s3 slot_raced"
    using slot_act.s_register [of 0 ?s3 7]
    by (simp add: slot_start_def slot_raced_def claim_def slot_new_def slot_take_def register_def)
  ultimately show ?thesis by (blast intro: sls.reach_step slot_stepI)
qed

theorem no_untracked_worker_witness: "(7 :: nat) \<in> sy_aborted slot_raced"
  using no_untracked_worker [OF slot_raced_reach, of 0 7] by (simp add: slot_raced_def)

theorem claim_is_exclusive_witness:
  "\<exists>t. slot_acts [Registered 0 7, Dropped 0, Registered 1 8]
        (slot_raced\<lparr> sy_registered := (\<lambda>_. None) \<rparr>) t
     \<and> sl_entry (sy_slot t) = Some (1, Some 8) \<and> claim (sy_slot t) = (None, sy_slot t)"
proof -
  let ?s = "slot_raced\<lparr> sy_registered := (\<lambda>_. None) \<rparr>"
  let ?t = "?s\<lparr> sy_slot := (sy_slot slot_raced)\<lparr> sl_entry := Some (1, Some 8) \<rparr>, sy_live := {1},
              sy_registered := [0 \<mapsto> 7, 1 \<mapsto> 8], sy_aborted := {7} \<rparr>"
  let ?s1 = "?s\<lparr> sy_registered := [0 \<mapsto> 7] \<rparr>"
  let ?s2 = "?s1\<lparr> sy_live := {1} \<rparr>"
  have "slot_act (Registered 0 7) ?s ?s1"
    using slot_act.s_register [of 0 ?s 7 "Some 7" "sy_slot ?s"]
    by (simp add: slot_raced_def register_def)
  moreover have "slot_act (Dropped 0) ?s1 ?s2"
    using slot_act.s_drop [of 0 ?s1] by (simp add: slot_raced_def drop_claim_def finish_def)
  moreover have "slot_act (Registered 1 8) ?s2 ?t"
    using slot_act.s_register [of 1 ?s2 8 None "sy_slot ?t"]
    by (simp add: slot_raced_def register_def)
  ultimately have acts: "slot_acts [Registered 0 7, Dropped 0, Registered 1 8] ?s ?t"
    by (blast intro: slot_acts.intros)
  have entry: "sl_entry (sy_slot ?s) = Some (1, None)" by (simp add: slot_raced_def)
  have "sl_entry (sy_slot ?t) = Some (1, Some 8)" "claim (sy_slot ?t) = (None, sy_slot ?t)"
    using claim_is_exclusive [OF acts entry] by simp_all
  with acts show ?thesis by blast
qed

end
