(* ===== verification/Compose.thy ===== *)
theory Compose
  imports Documents
begin

text \<open>
  The per-run composer \<open>RunBundle\<close> and the resource composers
  (\<open>event_model/compose.rs\<close>). The mutex-protected interior state is an explicit record;
  \<open>new_uid()\<close> (a random UUID) and \<open>now()\<close> are arguments, so that an operation that mints one
  uid takes one. Sequence counters are \<open>u64\<close> words: \<open>fetch_add\<close> wraps.

  The locale \<open>composer\<close> states what the bundler and the engine rely on: events take the next
  number of their stream and name the stream's current descriptor, and a snapshot restores the
  counters. Its consequences (consecutive numbering, identical numbering of a replay) are
  proved there and reach \<open>RunBundle\<close> by the interpretation \<open>rb\<close>.
\<close>

record StreamState =
  ss_descriptor :: EventDescriptor
  ss_seq_num :: u64

record RunBundle =
  rb_start_uid :: string
  rb_streams :: "(string, StreamState) hmap"

definition bundle_open :: "RunStart \<Rightarrow> RunBundle" where
  "bundle_open start = \<lparr> rb_start_uid = rs_uid start, rb_streams = [] \<rparr>"

definition bundle_start :: "string \<Rightarrow> f64 \<Rightarrow> u64 option \<Rightarrow> Hints option \<Rightarrow> RunStart" where
  "bundle_start new_uid now scan_id hints =
     \<lparr> rs_uid = new_uid, rs_time = now, rs_scan_id = scan_id, rs_hints = hints,
       rs_sample = None, rs_data_groups = [], rs_data_session = '''', rs_data_type = None,
       rs_group = '''', rs_owner = '''', rs_project = '''', rs_projections = [], rs_extra = [] \<rparr>"

definition bundle_descriptor ::
  "RunBundle \<Rightarrow> string \<Rightarrow> (string, DataKey) hmap \<Rightarrow> (string, Configuration) hmap
   \<Rightarrow> (string, PerObjectHint) hmap option \<Rightarrow> (string, string list) hmap \<Rightarrow> string \<Rightarrow> f64
   \<Rightarrow> (EventDescriptor \<times> bool) \<times> RunBundle" where
  "bundle_descriptor b name data_keys configuration hints object_keys new_uid now =
     (case hget (rb_streams b) name of
        Some st \<Rightarrow> ((ss_descriptor st, False), b)
      | None \<Rightarrow>
          (let d = \<lparr> desc_uid = new_uid, desc_run_start = rb_start_uid b, desc_time = now,
                     desc_data_keys = data_keys, desc_configuration = configuration,
                     desc_name = Some name, desc_hints = hints, desc_object_keys = object_keys \<rparr>
           in ((d, True),
               b\<lparr> rb_streams := hput name \<lparr> ss_descriptor = d, ss_seq_num = 0 \<rparr> (rb_streams b) \<rparr>)))"

definition compose_redescribe ::
  "RunBundle \<Rightarrow> string \<Rightarrow> string \<Rightarrow> Configuration \<Rightarrow> string \<Rightarrow> f64 \<Rightarrow> EventDescriptor option" where
  "compose_redescribe b stream_name object_name configuration new_uid now =
     (case hget (rb_streams b) stream_name of
        None \<Rightarrow> None
      | Some st \<Rightarrow>
          (if \<not> hmem object_name (desc_configuration (ss_descriptor st)) then None
           else Some ((ss_descriptor st)
                  \<lparr> desc_uid := new_uid, desc_time := now,
                    desc_configuration :=
                      hput object_name configuration (desc_configuration (ss_descriptor st)) \<rparr>)))"

definition install_descriptor :: "RunBundle \<Rightarrow> string \<Rightarrow> EventDescriptor \<Rightarrow> RunBundle" where
  "install_descriptor b stream_name descriptor =
     (case hget (rb_streams b) stream_name of
        None \<Rightarrow> b
      | Some st \<Rightarrow>
          b\<lparr> rb_streams := hput stream_name (st\<lparr> ss_descriptor := descriptor \<rparr>) (rb_streams b) \<rparr>)"

definition bundle_event ::
  "RunBundle \<Rightarrow> string \<Rightarrow> (string, json) hmap \<Rightarrow> (string, f64) hmap \<Rightarrow> string \<Rightarrow> f64
   \<Rightarrow> Event option \<times> RunBundle" where
  "bundle_event b stream_name data timestamps new_uid now =
     (case hget (rb_streams b) stream_name of
        None \<Rightarrow> (None, b)
      | Some st \<Rightarrow>
          (let n = ss_seq_num st + 1
           in (Some \<lparr> ev_uid = new_uid, ev_descriptor = desc_uid (ss_descriptor st), ev_time = now,
                      ev_seq_num = n, ev_data = data, ev_timestamps = timestamps, ev_filled = [] \<rparr>,
               b\<lparr> rb_streams := hput stream_name (st\<lparr> ss_seq_num := n \<rparr>) (rb_streams b) \<rparr>)))"

text \<open>\<open>event_page\<close>: \<open>uids\<close> are the \<open>n\<close> fresh row uids.\<close>

definition bundle_event_page ::
  "RunBundle \<Rightarrow> string \<Rightarrow> (string, json list) hmap \<Rightarrow> (string, f64 list) hmap \<Rightarrow> nat
   \<Rightarrow> string list \<Rightarrow> f64 \<Rightarrow> EventPage option \<times> RunBundle" where
  "bundle_event_page b stream_name data timestamps n uids now =
     (case hget (rb_streams b) stream_name of
        None \<Rightarrow> (None, b)
      | Some st \<Rightarrow>
          (let start = ss_seq_num st
           in (Some \<lparr> ep_uid = take n uids, ep_descriptor = desc_uid (ss_descriptor st),
                      ep_time = replicate n now,
                      ep_seq_num = map (\<lambda>j. start + of_nat j) [1..<Suc n],
                      ep_data = data, ep_timestamps = timestamps, ep_filled = [] \<rparr>,
               b\<lparr> rb_streams :=
                   hput stream_name (st\<lparr> ss_seq_num := start + of_nat n \<rparr>) (rb_streams b) \<rparr>)))"

definition peek_next_seq :: "RunBundle \<Rightarrow> string \<Rightarrow> u64 option" where
  "peek_next_seq b stream_name =
     map_option (\<lambda>st. ss_seq_num st + 1) (hget (rb_streams b) stream_name)"

definition advance_seq :: "RunBundle \<Rightarrow> string \<Rightarrow> u64 \<Rightarrow> bool \<times> RunBundle" where
  "advance_seq b stream_name n =
     (case hget (rb_streams b) stream_name of
        Some st \<Rightarrow>
          (True, b\<lparr> rb_streams :=
                     hput stream_name (st\<lparr> ss_seq_num := ss_seq_num st + n \<rparr>) (rb_streams b) \<rparr>)
      | None \<Rightarrow> (False, b))"

definition starts_with :: "string \<Rightarrow> string \<Rightarrow> bool" where
  "starts_with p s = (take (length p) s = p)"

definition is_external :: "DataKey \<Rightarrow> bool" where
  "is_external dk = (case dk_external dk of None \<Rightarrow> False | Some e \<Rightarrow> starts_with ''STREAM:'' e)"

definition external_data_keys :: "RunBundle \<Rightarrow> string \<Rightarrow> string list option" where
  "external_data_keys b stream_name =
     map_option
       (\<lambda>st. map fst (filter (\<lambda>(_, dk). is_external dk) (desc_data_keys (ss_descriptor st))))
       (hget (rb_streams b) stream_name)"

definition snapshot_seq_nums :: "RunBundle \<Rightarrow> (string, u64) hmap" where
  "snapshot_seq_nums b = hmap_values ss_seq_num (rb_streams b)"

definition restore_seq_nums :: "RunBundle \<Rightarrow> (string, u64) hmap \<Rightarrow> RunBundle" where
  "restore_seq_nums b snapshot =
     b\<lparr> rb_streams :=
         map (\<lambda>(name, st).
                (name, st\<lparr> ss_seq_num := (case hget snapshot name of None \<Rightarrow> 0 | Some v \<Rightarrow> v) \<rparr>))
             (rb_streams b) \<rparr>"

text \<open>\<open>stop\<close> parses the status and panics (\<open>expect\<close>) when the schema does not allow it.\<close>

definition bundle_stop ::
  "RunBundle \<Rightarrow> string \<Rightarrow> string option \<Rightarrow> string \<Rightarrow> f64 \<Rightarrow> RunStop outcome" where
  "bundle_stop b exit_status reason new_uid now =
     (case exit_status_from_str exit_status of
        None \<Rightarrow> Panic ''close_run_if_open normalizes exit_status to a schema-valid value''
      | Some e \<Rightarrow> Ok \<lparr> stop_uid = new_uid, stop_run_start = rb_start_uid b, stop_time = now,
                      stop_exit_status = e, stop_reason = reason,
                      stop_num_events = hmap_values ss_seq_num (rb_streams b),
                      stop_data_type = None, stop_extra = [] \<rparr>)"

definition descriptor_uid_for :: "RunBundle \<Rightarrow> string \<Rightarrow> string option" where
  "descriptor_uid_for b stream_name =
     map_option (\<lambda>st. desc_uid (ss_descriptor st)) (hget (rb_streams b) stream_name)"

section \<open>Resource composers\<close>

record StreamResourceComposer =
  src_stream_resource :: StreamResource
  src_counter :: u64

record ResourceComposer =
  rc_resource :: Resource
  rc_counter :: u64

definition stream_resource ::
  "RunBundle \<Rightarrow> string \<Rightarrow> string \<Rightarrow> string \<Rightarrow> (string, json) hmap \<Rightarrow> string \<Rightarrow> StreamResourceComposer" where
  "stream_resource b data_key mimetype uri parameters new_uid =
     \<lparr> src_stream_resource =
         \<lparr> sr_uid = new_uid, sr_data_key = data_key, sr_mimetype = mimetype, sr_uri = uri,
           sr_parameters = parameters, sr_run_start = Some (rb_start_uid b) \<rparr>,
       src_counter = 0 \<rparr>"

definition resource ::
  "RunBundle \<Rightarrow> string \<Rightarrow> string \<Rightarrow> string \<Rightarrow> string option \<Rightarrow> (string, json) hmap \<Rightarrow> string
   \<Rightarrow> ResourceComposer" where
  "resource b spec root resource_path path_semantics resource_kwargs new_uid =
     \<lparr> rc_resource =
         \<lparr> res_uid = new_uid, res_spec = spec, res_root = root, res_resource_path = resource_path,
           res_path_semantics =
             (case path_semantics of None \<Rightarrow> Some ''posix'' | Some s \<Rightarrow> Some s),
           res_resource_kwargs = resource_kwargs, res_run_start = Some (rb_start_uid b) \<rparr>,
       rc_counter = 0 \<rparr>"

definition datum_id_of :: "string \<Rightarrow> u64 \<Rightarrow> string" where
  "datum_id_of uid i = uid @ ''/'' @ show_nat (unat i)"

definition datum :: "ResourceComposer \<Rightarrow> (string, json) hmap \<Rightarrow> Datum \<times> ResourceComposer" where
  "datum rc datum_kwargs =
     (let i = rc_counter rc
      in (\<lparr> dat_datum_id = datum_id_of (res_uid (rc_resource rc)) i,
            dat_resource = res_uid (rc_resource rc), dat_datum_kwargs = datum_kwargs \<rparr>,
          rc\<lparr> rc_counter := i + 1 \<rparr>))"

definition datum_page ::
  "ResourceComposer \<Rightarrow> (string, json list) hmap \<Rightarrow> nat \<Rightarrow> DatumPage \<times> ResourceComposer" where
  "datum_page rc datum_kwargs n =
     (let start = rc_counter rc
      in (\<lparr> dp_datum_id =
              map (\<lambda>j. datum_id_of (res_uid (rc_resource rc)) (start + of_nat j)) [0..<n],
            dp_resource = res_uid (rc_resource rc), dp_datum_kwargs = datum_kwargs \<rparr>,
          rc\<lparr> rc_counter := start + of_nat n \<rparr>))"

definition stream_datum ::
  "StreamResourceComposer \<Rightarrow> StreamRange \<Rightarrow> StreamRange \<Rightarrow> string
   \<Rightarrow> StreamDatum \<times> StreamResourceComposer" where
  "stream_datum src indices seq_nums descriptor_uid =
     (let i = src_counter src; uid = sr_uid (src_stream_resource src)
      in (\<lparr> sd_uid = datum_id_of uid i, sd_stream_resource = uid, sd_descriptor = descriptor_uid,
            sd_indices = indices, sd_seq_nums = seq_nums \<rparr>,
          src\<lparr> src_counter := i + 1 \<rparr>))"

lemma datum_id_of_inject: "datum_id_of u i = datum_id_of u j \<longleftrightarrow> i = j"
  by (simp add: datum_id_of_def word_unat_eq_iff)

section \<open>The view clients have of a composer\<close>

definition bundle_seq :: "RunBundle \<Rightarrow> string \<Rightarrow> u64 option" where
  "bundle_seq b s = map_option ss_seq_num (hget (rb_streams b) s)"

text \<open>One event request: stream, data, timestamps, fresh uid, time.\<close>

type_synonym event_req = "string \<times> (string, json) hmap \<times> (string, f64) hmap \<times> string \<times> f64"

definition bundle_emit :: "RunBundle \<Rightarrow> event_req \<Rightarrow> Event option \<times> RunBundle" where
  "bundle_emit b r = (case r of (s, data, ts, uid, t) \<Rightarrow> bundle_event b s data ts uid t)"

primrec emit_all :: "('b \<Rightarrow> 'r \<Rightarrow> 'e option \<times> 'b) \<Rightarrow> 'b \<Rightarrow> 'r list \<Rightarrow> 'e option list \<times> 'b" where
  "emit_all emit b [] = ([], b)"
| "emit_all emit b (r # rs) =
     (let (e, b') = emit b r; (es, b'') = emit_all emit b' rs in (e # es, b''))"

text \<open>The events a list of requests produced on one stream.\<close>

fun events_on :: "string \<Rightarrow> event_req list \<Rightarrow> Event option list \<Rightarrow> Event list" where
  "events_on s (r # rs) (e # es) =
     (case e of Some ev \<Rightarrow> if fst r = s then ev # events_on s rs es else events_on s rs es
      | None \<Rightarrow> events_on s rs es)"
| "events_on s _ _ = []"

definition requests_on :: "string \<Rightarrow> event_req list \<Rightarrow> nat" where
  "requests_on s rs = length (filter (\<lambda>r. fst r = s) rs)"

lemma requests_on_simps [simp]:
  "requests_on s [] = 0"
  "requests_on s (r # rs) = (if fst r = s then Suc (requests_on s rs) else requests_on s rs)"
  by (simp_all add: requests_on_def)

lemma consecutive_Cons:
  fixes n :: u64
  shows "map (\<lambda>i. n + of_nat i) [1..<Suc (Suc k)] = (n + 1) # map (\<lambda>i. (n + 1) + of_nat i) [1..<Suc k]"
proof -
  have "[1..<Suc (Suc k)] = 1 # map Suc [1..<Suc k]"
    by (subst upt_conv_Cons) (simp_all add: map_Suc_upt del: upt_Suc)
  then show ?thesis by (simp add: comp_def add.assoc del: upt_Suc)
qed

locale composer =
  fixes seq :: "'b \<Rightarrow> string \<Rightarrow> u64 option"
    and cur :: "'b \<Rightarrow> string \<Rightarrow> string option"
    and emit :: "'b \<Rightarrow> event_req \<Rightarrow> Event option \<times> 'b"
    and snap :: "'b \<Rightarrow> (string, u64) hmap"
    and restore :: "'b \<Rightarrow> (string, u64) hmap \<Rightarrow> 'b"
  assumes same_streams: "seq b s = None \<longleftrightarrow> cur b s = None"
    and emit_undeclared: "seq b (fst r) = None \<Longrightarrow> emit b r = (None, b)"
    and emit_declared: "seq b (fst r) = Some n \<Longrightarrow>
      \<exists>e b'. emit b r = (Some e, b') \<and> ev_seq_num e = n + 1 \<and> cur b (fst r) = Some (ev_descriptor e)
             \<and> seq b' = (seq b)(fst r \<mapsto> n + 1) \<and> cur b' = cur b"
    and snap_seq: "hget (snap b) s = seq b s"
    and restore_seq: "seq (restore b sn) s =
      map_option (\<lambda>_. case hget sn s of None \<Rightarrow> 0 | Some v \<Rightarrow> v) (seq b s)"
    and restore_cur: "cur (restore b sn) = cur b"
begin

lemma emit_cases:
  obtains "seq b (fst r) = None" "emit b r = (None, b)"
  | n e b' where "seq b (fst r) = Some n" "emit b r = (Some e, b')" "ev_seq_num e = n + 1"
      "cur b (fst r) = Some (ev_descriptor e)" "seq b' = (seq b)(fst r \<mapsto> n + 1)" "cur b' = cur b"
  by (cases "seq b (fst r)") (auto dest: emit_undeclared emit_declared)

lemma emit_cur: "cur (snd (emit b r)) = cur b"
  by (rule emit_cases [of b r]) auto

lemma emit_all_cur: "cur (snd (emit_all emit b rs)) = cur b"
  by (induction rs arbitrary: b) (auto simp: Let_def split_beta emit_cur)

lemma emit_all_dom: "seq (snd (emit_all emit b rs)) s = None \<longleftrightarrow> seq b s = None"
  by (simp add: same_streams emit_all_cur)

text \<open>The requests of stream \<open>s\<close> are numbered consecutively from its counter.\<close>

lemma emit_all_consecutive:
  assumes "seq b s = Some n"
  shows "map ev_seq_num (events_on s rs (fst (emit_all emit b rs)))
           = map (\<lambda>i. n + of_nat i) [1..<Suc (requests_on s rs)]
       \<and> seq (snd (emit_all emit b rs)) s = Some (n + of_nat (requests_on s rs))"
  using assms
proof (induction rs arbitrary: b n)
  case Nil
  then show ?case by simp
next
  case (Cons r rs)
  obtain e b' where step: "emit b r = (e, b')" by (cases "emit b r")
  show ?case
  proof (cases "fst r = s")
    case True
    with Cons.prems have n: "seq b (fst r) = Some n" by simp
    from emit_declared [OF n] step True obtain ev where ev: "e = Some ev" "ev_seq_num ev = n + 1"
      "seq b' s = Some (n + 1)" by auto
    show ?thesis
      using Cons.IH [OF ev(3)] True ev(1,2) step consecutive_Cons [of n "requests_on s rs"]
      by (simp add: Let_def split_beta add.assoc del: upt_Suc)
  next
    case False
    have "seq b' s = seq b s"
      by (rule emit_cases [of b r]) (use step False in auto)
    then show ?thesis
      using Cons.IH [of b' n] Cons.prems False step
      by (cases e) (simp_all add: Let_def split_beta del: upt_Suc)
  qed
qed

lemma emit_all_descriptors:
  "e \<in> set (events_on s rs (fst (emit_all emit b rs))) \<Longrightarrow> cur b s = Some (ev_descriptor e)"
proof (induction rs arbitrary: b)
  case (Cons r rs)
  obtain x b' where step: "emit b r = (x, b')" by (cases "emit b r")
  have "cur b' = cur b" using emit_cur [of b r] step by simp
  moreover have "x = Some ev \<Longrightarrow> cur b (fst r) = Some (ev_descriptor ev)" for ev
    by (rule emit_cases [of b r]) (use step in auto)
  ultimately show ?case
    using Cons.IH [of b'] Cons.prems step
    by (auto simp: Let_def split_beta split: option.splits if_splits)
qed simp

text \<open>Emission depends on the state only through the counters and the current descriptors.\<close>

lemma emit_all_view:
  "seq b = seq c \<Longrightarrow> cur b = cur c \<Longrightarrow>
   map (map_option (\<lambda>e. (ev_seq_num e, ev_descriptor e))) (fst (emit_all emit b rs))
     = map (map_option (\<lambda>e. (ev_seq_num e, ev_descriptor e))) (fst (emit_all emit c rs))"
proof (induction rs arbitrary: b c)
  case Nil
  then show ?case by simp
next
  case (Cons r rs)
  obtain e b' where eb: "emit b r = (e, b')" by (cases "emit b r")
  obtain f c' where fc: "emit c r = (f, c')" by (cases "emit c r")
  have "map_option (\<lambda>e. (ev_seq_num e, ev_descriptor e)) e
          = map_option (\<lambda>e. (ev_seq_num e, ev_descriptor e)) f \<and> seq b' = seq c' \<and> cur b' = cur c'"
  proof (cases "seq b (fst r)")
    case None
    then show ?thesis
      using emit_undeclared [of b r] emit_undeclared [of c r] Cons.prems eb fc by auto
  next
    case (Some n)
    then show ?thesis
      using emit_declared [of b r n] emit_declared [of c r n] Cons.prems eb fc by auto
  qed
  then show ?case using Cons.IH [of b' c'] eb fc by (simp add: Let_def split_beta)
qed

text \<open>Replay: restoring the snapshot and emitting the same requests numbers them identically.\<close>

lemma replay_same_numbers:
  fixes b0 :: 'b and rs rs' :: "event_req list"
  defines "b1 \<equiv> snd (emit_all emit b0 rs)"
  shows "map (map_option (\<lambda>e. (ev_seq_num e, ev_descriptor e)))
             (fst (emit_all emit (restore b1 (snap b0)) rs'))
       = map (map_option (\<lambda>e. (ev_seq_num e, ev_descriptor e))) (fst (emit_all emit b0 rs'))"
proof (rule emit_all_view)
  show "seq (restore b1 (snap b0)) = seq b0"
  proof
    fix s
    show "seq (restore b1 (snap b0)) s = seq b0 s"
      using emit_all_dom [of b0 rs s]
      by (cases "seq b0 s"; cases "seq b1 s") (auto simp: restore_seq snap_seq b1_def)
  qed
  show "cur (restore b1 (snap b0)) = cur b0"
    by (simp add: restore_cur b1_def emit_all_cur)
qed

end

lemma hget_restore_streams:
  "hget (rb_streams (restore_seq_nums b sn)) s =
     map_option (\<lambda>st. st\<lparr> ss_seq_num := (case hget sn s of None \<Rightarrow> 0 | Some v \<Rightarrow> v) \<rparr>)
       (hget (rb_streams b) s)"
proof -
  have "hget (map (\<lambda>(name, st). (name, st\<lparr> ss_seq_num := f name \<rparr>)) xs) s
          = map_option (\<lambda>st. st\<lparr> ss_seq_num := f s \<rparr>) (hget xs s)" for f xs
    by (induction xs) auto
  then show ?thesis by (simp add: restore_seq_nums_def)
qed

interpretation rb: composer bundle_seq descriptor_uid_for bundle_emit snapshot_seq_nums restore_seq_nums
proof (unfold_locales, goal_cases)
  case (1 b s)
  show ?case by (simp add: bundle_seq_def descriptor_uid_for_def)
next
  case (2 b r)
  then show ?case
    by (cases r) (simp add: bundle_emit_def bundle_event_def bundle_seq_def)
next
  case (3 b r n)
  then show ?case
    by (cases r) (auto simp: bundle_emit_def bundle_event_def bundle_seq_def descriptor_uid_for_def
                       Let_def fun_eq_iff)
next
  case (4 b s)
  show ?case by (simp add: snapshot_seq_nums_def bundle_seq_def)
next
  case (5 b sn s)
  show ?case by (simp add: bundle_seq_def hget_restore_streams option.map_comp comp_def)
next
  case (6 b sn)
  show ?case
    by (simp add: descriptor_uid_for_def fun_eq_iff hget_restore_streams option.map_comp comp_def)
qed

section \<open>Numbering\<close>

definition sample_descriptor :: EventDescriptor where
  "sample_descriptor = fst (fst (bundle_descriptor \<lparr> rb_start_uid = ''run'', rb_streams = [] \<rparr>
     ''primary'' [] [] None [] ''d1'' 0))"

definition sample_bundle :: RunBundle where
  "sample_bundle = \<lparr> rb_start_uid = ''run'',
     rb_streams = [(''primary'', \<lparr> ss_descriptor = sample_descriptor, ss_seq_num = 0 \<rparr>)] \<rparr>"

text \<open>C22. However the requests of several streams are interleaved, the events of one stream are numbered
  consecutively from the stream's counter \<open>n\<close> (modulo \<open>2^64\<close>, as the atomic counter wraps), every one of them names
  the stream's current descriptor, and \<open>stop\<close> reports the final counters: \<open>n\<close> plus the number of events of the stream,
  which is that number when the counter started at 0.\<close>

theorem stop_counts_events:
  assumes "bundle_seq b s = Some n" and "exit_status_from_str status = Some e"
  shows "map ev_seq_num (events_on s rs (fst (emit_all bundle_emit b rs)))
           = map (\<lambda>i. n + of_nat i) [1..<Suc (requests_on s rs)]
       \<and> (\<forall>ev\<in>set (events_on s rs (fst (emit_all bundle_emit b rs))).
             descriptor_uid_for b s = Some (ev_descriptor ev))
       \<and> (\<exists>stop. bundle_stop (snd (emit_all bundle_emit b rs)) status reason u t = Ok stop
             \<and> stop_exit_status stop = e \<and> stop_run_start stop = rb_start_uid (snd (emit_all bundle_emit b rs))
             \<and> hget (stop_num_events stop) s = Some (n + of_nat (requests_on s rs)))"
  using rb.emit_all_consecutive [OF assms(1), of rs] assms(2) rb.emit_all_descriptors [of _ s rs b]
  by (auto simp: bundle_stop_def bundle_seq_def simp del: upt_Suc)

theorem stop_counts_events_witness:
  "\<exists>stop. bundle_stop (snd (emit_all bundle_emit sample_bundle
       [(''primary'', [], [], ''e1'', 0), (''other'', [], [], ''e2'', 0), (''primary'', [], [], ''e3'', 0)]))
      ''abort'' None ''u'' 0 = Ok stop \<and> hget (stop_num_events stop) ''primary'' = Some 2"
  using stop_counts_events [where b = sample_bundle and s = "''primary''" and status = "''abort''" and n = 0
      and e = Abort and reason = None and u = "''u''" and t = 0
      and rs = "[(''primary'', [], [], ''e1'', 0), (''other'', [], [], ''e2'', 0), (''primary'', [], [], ''e3'', 0)]"]
  by (auto simp: sample_bundle_def bundle_seq_def exit_status_from_str_def)

text \<open>A replay renumbers identically. Snapshot the counters, emit any requests \<open>rs\<close>, restore
  the snapshot and emit requests \<open>rs'\<close>: the second emission assigns exactly the sequence numbers
  and descriptors it would have assigned without the first.\<close>

theorem replay_numbers_identically:
  "map (map_option (\<lambda>e. (ev_seq_num e, ev_descriptor e)))
     (fst (emit_all bundle_emit
        (restore_seq_nums (snd (emit_all bundle_emit b rs)) (snapshot_seq_nums b)) rs'))
   = map (map_option (\<lambda>e. (ev_seq_num e, ev_descriptor e))) (fst (emit_all bundle_emit b rs'))"
  by (rule rb.replay_same_numbers)

section \<open>Datum identifiers\<close>

text \<open>Requests to a resource composer: one datum, or a page of \<open>n\<close>.\<close>

datatype datum_req = One "(string, json) hmap" | Page "(string, json list) hmap" nat

primrec datum_ids :: "ResourceComposer \<Rightarrow> datum_req list \<Rightarrow> string list" where
  "datum_ids rc [] = []"
| "datum_ids rc (r # rs) =
     (case r of
        One kw \<Rightarrow> (let (d, rc') = datum rc kw in dat_datum_id d # datum_ids rc' rs)
      | Page kw n \<Rightarrow> (let (p, rc') = datum_page rc kw n in dp_datum_id p @ datum_ids rc' rs))"

fun datum_req_size :: "datum_req \<Rightarrow> nat" where
  "datum_req_size (One kw) = 1"
| "datum_req_size (Page kw n) = n"

lemma shifted_ids:
  "map (\<lambda>j. f (c + (of_nat n :: u64) + of_nat j)) [0..<m] = map (\<lambda>j. f (c + of_nat j)) [n..<n + m]"
  by (rule nth_equalityI) (simp_all add: add.assoc)

lemma shifted_ids_1:
  "map (\<lambda>j. f (c + (1 :: u64) + of_nat j)) [0..<m] = map (\<lambda>j. f (c + of_nat j)) [Suc 0..<Suc m]"
  using shifted_ids [where n = 1 and f = f and c = c and m = m] by simp

lemma upt_split_map: "map f [0..<n] @ map f [n..<n + m] = map f [0..<n + m]"
  by (simp add: upt_add_eq_append [of 0] flip: map_append)

lemma datum_ids_enumerate:
  "datum_ids rc rs = map (\<lambda>j. datum_id_of (res_uid (rc_resource rc)) (rc_counter rc + of_nat j))
     [0..<sum_list (map datum_req_size rs)]"
proof (induction rs arbitrary: rc)
  case (Cons r rs)
  let ?f = "\<lambda>j. datum_id_of (res_uid (rc_resource rc)) (rc_counter rc + of_nat j)"
  let ?m = "sum_list (map datum_req_size rs)"
  have "datum_ids rc (r # rs) = map ?f [0..<datum_req_size r] @ map ?f [datum_req_size r..<datum_req_size r + ?m]"
    by (cases r) (simp_all add: Cons.IH datum_def datum_page_def Let_def shifted_ids_1 shifted_ids
        del: upt_Suc, simp)
  then show ?case by (simp only: upt_split_map list.map sum_list.Cons)
qed simp

text \<open>C30. The identifiers one resource composer hands out, through any mix of single datums and pages, are
  \<open>resource_uid/index\<close> with consecutive indices from its counter (modulo \<open>2^64\<close>), one for every datum requested, and pairwise
  distinct as long as no more than \<open>2^64\<close> were requested.\<close>

theorem datum_ids_distinct:
  assumes "sum_list (map datum_req_size rs) \<le> 2 ^ 64"
  shows "distinct (datum_ids rc rs)
    \<and> datum_ids rc rs = map (\<lambda>j. datum_id_of (res_uid (rc_resource rc)) (rc_counter rc + of_nat j))
        [0..<sum_list (map datum_req_size rs)]"
proof -
  have "inj_on (\<lambda>j. of_nat j :: u64) {0..<2 ^ 64}"
    by (auto simp: inj_on_def word_of_nat_eq_iff take_bit_nat_eq_self)
  then have "inj_on (\<lambda>j. datum_id_of (res_uid (rc_resource rc)) (rc_counter rc + of_nat j))
               (set [0..<sum_list (map datum_req_size rs)])"
    using assms by (auto simp: inj_on_def datum_id_of_inject)
  then show ?thesis by (simp add: datum_ids_enumerate distinct_map del: upt_Suc)
qed

theorem datum_ids_distinct_witness:
  "distinct (datum_ids (resource sample_bundle ''SPEC'' ''/'' ''p'' None [] ''r'') [One [], Page [] 3, One []])"
  by (rule datum_ids_distinct [THEN conjunct1]) simp

end
