(* ===== verification/Bundler.thy ===== *)
theory Bundler
  imports Compose "HOL-Library.List_Lexorder" "HOL-Library.Char_ord"
begin

text \<open>
  The per-run bundler (\<open>engine/bundler.rs\<close>): descriptors and events from \<open>create\<close> /
  \<open>read\<close> / \<open>save\<close>, the per-run caches, and the checkpoint snapshot of the sequence counters.
  The \<open>Arc<RunBundle>\<close> it shares with monitor pumps is the field \<open>bd_bundle\<close>; fresh uids and
  the time are arguments, as in \<open>Compose\<close>. The invariant \<open>bundler_inv\<close> says that the two
  descriptor caches (the bundler's uid cache and the composer's stream table) agree; every
  operation keeps it.
\<close>

record StreamObject =
  so_object :: "string option"
  so_data_keys :: "(string, DataKey) hmap"
  so_hint_fields :: "string list option"
  so_configuration :: Configuration

definition objectless :: "(string, DataKey) hmap \<Rightarrow> StreamObject" where
  "objectless data_keys =
     \<lparr> so_object = None, so_data_keys = data_keys, so_hint_fields = None,
       so_configuration = default_configuration \<rparr>"

record OpenBundle =
  ob_stream_name :: string
  ob_readings :: readings
  ob_objs :: "StreamObject list"

record RunBundler =
  bd_bundle :: RunBundle
  bd_descriptors :: "(string, string) hmap"
  bd_open :: "OpenBundle option"
  bd_start_uid :: string
  bd_config_cache :: "(string, Configuration) hmap"
  bd_seq_snapshot :: "(string, u64) hmap option"
  bd_stream_resource_data_keys :: "(string, string) hmap"
  bd_declared_stream_names :: "(string set, string list) hmap"

definition bundler_new :: "RunBundle \<Rightarrow> RunBundler" where
  "bundler_new b =
     \<lparr> bd_bundle = b, bd_descriptors = [], bd_open = None, bd_start_uid = rb_start_uid b,
       bd_config_cache = [], bd_seq_snapshot = None, bd_stream_resource_data_keys = [],
       bd_declared_stream_names = [] \<rparr>"

definition record_declared_stream :: "RunBundler \<Rightarrow> string set \<Rightarrow> string \<Rightarrow> RunBundler" where
  "record_declared_stream b objs stream_name =
     b\<lparr> bd_declared_stream_names := hpush objs stream_name (bd_declared_stream_names b) \<rparr>"

definition declared_stream_names :: "RunBundler \<Rightarrow> string set \<Rightarrow> string list" where
  "declared_stream_names b objs =
     (case hget (bd_declared_stream_names b) objs of None \<Rightarrow> [] | Some ns \<Rightarrow> ns)"

definition cached_configuration :: "RunBundler \<Rightarrow> string \<Rightarrow> Configuration option" where
  "cached_configuration b object_name = hget (bd_config_cache b) object_name"

definition cache_configuration :: "RunBundler \<Rightarrow> string \<Rightarrow> Configuration \<Rightarrow> RunBundler" where
  "cache_configuration b object_name config =
     b\<lparr> bd_config_cache := hput object_name config (bd_config_cache b) \<rparr>"

text \<open>\<open>fresh\<close> gives the uid minted for the candidate of each stream.\<close>

definition compose_reconfigure ::
  "RunBundler \<Rightarrow> string \<Rightarrow> Configuration \<Rightarrow> (string \<Rightarrow> string) \<Rightarrow> f64 \<Rightarrow> EventDescriptor list" where
  "compose_reconfigure b object_name configuration fresh now =
     filter_map (\<lambda>name. compose_redescribe (bd_bundle b) name object_name configuration (fresh name) now)
       (hkeys (bd_descriptors b))"

definition install_one :: "EventDescriptor \<Rightarrow> RunBundler \<Rightarrow> RunBundler" where
  "install_one desc b =
     (case desc_name desc of
        None \<Rightarrow> b
      | Some name \<Rightarrow>
          b\<lparr> bd_bundle := install_descriptor (bd_bundle b) name desc,
             bd_descriptors := hput name (desc_uid desc) (bd_descriptors b) \<rparr>)"

definition install_reconfigured :: "RunBundler \<Rightarrow> EventDescriptor list \<Rightarrow> RunBundler" where
  "install_reconfigured b descriptors = fold install_one descriptors b"

definition bundler_reset_checkpoint :: "RunBundler \<Rightarrow> RunBundler" where
  "bundler_reset_checkpoint b = b\<lparr> bd_seq_snapshot := Some (snapshot_seq_nums (bd_bundle b)) \<rparr>"

definition bundler_clear_checkpoint :: "RunBundler \<Rightarrow> RunBundler" where
  "bundler_clear_checkpoint b = b\<lparr> bd_seq_snapshot := None \<rparr>"

definition bundler_create :: "RunBundler \<Rightarrow> string \<Rightarrow> RunBundler outcome" where
  "bundler_create b stream_name =
     (if bd_open b \<noteq> None
      then Err (Plan ''create called while a previous bundle is still open'')
      else Ok (b\<lparr> bd_open := Some \<lparr> ob_stream_name = stream_name, ob_readings = [], ob_objs = [] \<rparr> \<rparr>))"

definition add_read :: "RunBundler \<Rightarrow> StreamObject \<Rightarrow> readings \<Rightarrow> RunBundler outcome" where
  "add_read b obj rds =
     (case bd_open b of
        None \<Rightarrow> Err (Plan ''read with no open bundle'')
      | Some ob \<Rightarrow>
          (case find (\<lambda>k. hmem k (ob_readings ob)) (hkeys rds) of
             Some k \<Rightarrow> Err (Plan (''Data keys (field names) collide in the open event: '' @ k))
           | None \<Rightarrow> Ok (b\<lparr> bd_open := Some (ob\<lparr> ob_readings := hextend (ob_readings ob) rds,
                                              ob_objs := ob_objs ob @ [obj] \<rparr>) \<rparr>)))"

section \<open>Shaping a descriptor\<close>

record shape =
  sh_data_keys :: "(string, DataKey) hmap"
  sh_object_keys :: "(string, string list) hmap"
  sh_hints :: "(string, PerObjectHint) hmap"
  sh_configuration :: "(string, Configuration) hmap"

definition empty_shape :: shape where
  "empty_shape = \<lparr> sh_data_keys = [], sh_object_keys = [], sh_hints = [], sh_configuration = [] \<rparr>"

definition shape_object :: "StreamObject \<Rightarrow> shape \<Rightarrow> shape" where
  "shape_object obj sh =
     (case so_object obj of
        None \<Rightarrow> sh\<lparr> sh_data_keys := hextend (sh_data_keys sh) (so_data_keys obj) \<rparr>
      | Some name \<Rightarrow>
          sh\<lparr> sh_object_keys := hput name (sort (hkeys (so_data_keys obj))) (sh_object_keys sh),
              sh_data_keys :=
                hextend (sh_data_keys sh)
                  (hmap_values (\<lambda>dk. dk\<lparr> dk_object_name := Some name \<rparr>) (so_data_keys obj)),
              sh_hints :=
                (case so_hint_fields obj of
                   None \<Rightarrow> sh_hints sh
                 | Some fs \<Rightarrow>
                     hput name
                       ((case hget (sh_hints sh) name of None \<Rightarrow> default_hint | Some h \<Rightarrow> h)
                          \<lparr> hint_fields := Some fs \<rparr>)
                       (sh_hints sh)),
              sh_configuration := hput name (so_configuration obj) (sh_configuration sh) \<rparr>)"

definition shape_stream :: "StreamObject list \<Rightarrow> shape" where
  "shape_stream objs = fold shape_object objs empty_shape"

definition prepare_stream ::
  "RunBundler \<Rightarrow> string \<Rightarrow> StreamObject list \<Rightarrow> string \<Rightarrow> f64 \<Rightarrow> EventDescriptor \<times> RunBundler" where
  "prepare_stream b stream_name objs new_uid now =
     (let sh = shape_stream objs;
          hints = (if sh_hints sh = [] then None else Some (sh_hints sh));
          ((descriptor, _), bundle) =
             bundle_descriptor (bd_bundle b) stream_name (sh_data_keys sh) (sh_configuration sh) hints
               (sh_object_keys sh) new_uid now
      in (descriptor,
          b\<lparr> bd_bundle := bundle,
             bd_descriptors := hput stream_name (desc_uid descriptor) (bd_descriptors b) \<rparr>))"

definition event_data :: "readings \<Rightarrow> (string, json) hmap" where
  "event_data rds = hmap_values rd_value rds"

definition event_timestamps :: "readings \<Rightarrow> (string, f64) hmap" where
  "event_timestamps rds = hmap_values rd_timestamp rds"

definition needs_descriptor :: "RunBundler \<Rightarrow> string \<Rightarrow> bool" where
  "needs_descriptor b stream_name =
     (case hget (bd_descriptors b) stream_name of None \<Rightarrow> True | Some uid \<Rightarrow> uid = '''')"

text \<open>\<open>desc_uid0\<close> and \<open>ev_uid0\<close> are the two uids a \<open>save\<close> may mint. The open bundle is taken
  first, so it is closed on every path but the one with no open bundle.\<close>

definition bundler_save ::
  "RunBundler \<Rightarrow> string \<Rightarrow> string \<Rightarrow> f64 \<Rightarrow> Document list outcome \<times> RunBundler" where
  "bundler_save b desc_uid0 ev_uid0 now =
     (case bd_open b of
        None \<Rightarrow> (Err (Plan ''save with no open bundle''), b)
      | Some ob \<Rightarrow>
          (let b1 = b\<lparr> bd_open := None \<rparr>
           in if ob_objs ob = [] then (Ok [], b1)
              else
                let s = ob_stream_name ob;
                    (pre, b2) =
                      (if needs_descriptor b1 s
                       then (let (d, b') = prepare_stream b1 s (ob_objs ob) desc_uid0 now
                             in ([DocDescriptor d], b'))
                       else ([], b1));
                    (ev, bundle) =
                      bundle_event (bd_bundle b2) s (event_data (ob_readings ob))
                        (event_timestamps (ob_readings ob)) ev_uid0 now
                in (case ev of
                      None \<Rightarrow> (Err (Plan ''event for unknown stream''), b2)
                    | Some e \<Rightarrow> (Ok (pre @ [DocEvent e]), b2\<lparr> bd_bundle := bundle \<rparr>))))"

definition is_bundling :: "RunBundler \<Rightarrow> bool" where
  "is_bundling b = (bd_open b \<noteq> None)"

definition open_stream_name :: "RunBundler \<Rightarrow> string option" where
  "open_stream_name b = map_option ob_stream_name (bd_open b)"

definition drop_bundle :: "RunBundler \<Rightarrow> unit outcome \<times> RunBundler" where
  "drop_bundle b =
     (if bd_open b = None then (Err (Plan ''drop with no open bundle''), b)
      else (Ok (), b\<lparr> bd_open := None \<rparr>))"

definition bundler_rewind :: "RunBundler \<Rightarrow> RunBundler" where
  "bundler_rewind b =
     (let b1 = b\<lparr> bd_open := None \<rparr>
      in case bd_seq_snapshot b1 of
           None \<Rightarrow> b1
         | Some snap \<Rightarrow> b1\<lparr> bd_bundle := restore_seq_nums (bd_bundle b1) snap \<rparr>)"

definition declare_stream ::
  "RunBundler \<Rightarrow> string \<Rightarrow> StreamObject list \<Rightarrow> string \<Rightarrow> f64 \<Rightarrow> EventDescriptor \<times> RunBundler" where
  "declare_stream b stream_name objs new_uid now = prepare_stream b stream_name objs new_uid now"

definition descriptor_uid :: "RunBundler \<Rightarrow> string \<Rightarrow> string option" where
  "descriptor_uid b stream_name =
     (case hget (bd_descriptors b) stream_name of
        None \<Rightarrow> None
      | Some uid \<Rightarrow> if uid = '''' then None else Some uid)"

section \<open>The invariant\<close>

text \<open>The two descriptor caches agree; every current descriptor belongs to this run, is stored
  under its own name and has a non-empty uid.\<close>

definition stream_ok :: "string \<Rightarrow> string \<Rightarrow> StreamState \<Rightarrow> bool" where
  "stream_ok run s st \<longleftrightarrow>
     desc_run_start (ss_descriptor st) = run \<and> desc_name (ss_descriptor st) = Some s
     \<and> desc_uid (ss_descriptor st) \<noteq> ''''"

definition bundler_inv :: "RunBundler \<Rightarrow> bool" where
  "bundler_inv b \<longleftrightarrow>
     rb_start_uid (bd_bundle b) = bd_start_uid b
     \<and> hwf (rb_streams (bd_bundle b)) \<and> hwf (bd_descriptors b)
     \<and> (\<forall>s. hget (bd_descriptors b) s = descriptor_uid_for (bd_bundle b) s)
     \<and> (\<forall>s st. hget (rb_streams (bd_bundle b)) s = Some st \<longrightarrow> stream_ok (bd_start_uid b) s st)"

lemma bundler_invD:
  assumes "bundler_inv b"
  shows "rb_start_uid (bd_bundle b) = bd_start_uid b"
    and "hwf (rb_streams (bd_bundle b))" and "hwf (bd_descriptors b)"
    and "hget (bd_descriptors b) s = descriptor_uid_for (bd_bundle b) s"
    and "hget (rb_streams (bd_bundle b)) s = Some st \<Longrightarrow> stream_ok (bd_start_uid b) s st"
  using assms by (auto simp: bundler_inv_def)

lemma descriptor_uid_inv: "bundler_inv b \<Longrightarrow> descriptor_uid b s = descriptor_uid_for (bd_bundle b) s"
  by (auto simp: bundler_inv_def descriptor_uid_def descriptor_uid_for_def stream_ok_def
           split: option.splits)

lemma needs_descriptor_inv:
  "bundler_inv b \<Longrightarrow> needs_descriptor b s \<longleftrightarrow> hget (rb_streams (bd_bundle b)) s = None"
  by (auto simp: bundler_inv_def needs_descriptor_def descriptor_uid_for_def stream_ok_def
           split: option.splits)

lemma bundler_inv_new: "bundler_inv (bundler_new (bundle_open start))"
  by (simp add: bundler_inv_def bundler_new_def bundle_open_def descriptor_uid_for_def)

text \<open>Updates of the fields the invariant does not mention.\<close>

lemma bundler_inv_frame [simp]:
  "bundler_inv (b\<lparr> bd_open := x \<rparr>) = bundler_inv b"
  "bundler_inv (b\<lparr> bd_config_cache := c \<rparr>) = bundler_inv b"
  "bundler_inv (b\<lparr> bd_seq_snapshot := y \<rparr>) = bundler_inv b"
  "bundler_inv (b\<lparr> bd_stream_resource_data_keys := z \<rparr>) = bundler_inv b"
  "bundler_inv (b\<lparr> bd_declared_stream_names := w \<rparr>) = bundler_inv b"
  by (simp_all add: bundler_inv_def)

lemma bundler_inv_event:
  assumes "bundler_inv b"
  shows "bundler_inv (b\<lparr> bd_bundle := snd (bundle_event (bd_bundle b) s d t u n) \<rparr>)"
  using assms
  by (auto simp: bundler_inv_def bundle_event_def descriptor_uid_for_def stream_ok_def Let_def
           split: option.splits)

lemma bundler_inv_advance:
  assumes "bundler_inv b"
  shows "bundler_inv (b\<lparr> bd_bundle := snd (advance_seq (bd_bundle b) s n) \<rparr>)"
  using assms
  by (auto simp: bundler_inv_def advance_seq_def descriptor_uid_for_def stream_ok_def
           split: option.splits)

lemma hwf_restore [simp]: "hwf (rb_streams (restore_seq_nums b sn)) = hwf (rb_streams b)"
  by (simp add: hwf_def restore_seq_nums_def comp_def split_beta)

lemma bundler_inv_rewind: "bundler_inv b \<Longrightarrow> bundler_inv (bundler_rewind b)"
proof (cases "bd_seq_snapshot b")
  case None
  then show "bundler_inv b \<Longrightarrow> bundler_inv (bundler_rewind b)"
    by (simp add: bundler_rewind_def Let_def)
next
  case (Some sn)
  assume "bundler_inv b"
  then show ?thesis
    using Some rb.restore_cur [of "bd_bundle b" sn]
    by (auto simp: bundler_rewind_def Let_def bundler_inv_def hget_restore_streams stream_ok_def
             restore_seq_nums_def [of "bd_bundle b", THEN arg_cong [of _ _ rb_start_uid]])
qed

lemma bundle_descriptor_frame:
  "rb_start_uid (snd (bundle_descriptor b name dk cf h ok u t)) = rb_start_uid b"
  "hwf (rb_streams b) \<Longrightarrow> hwf (rb_streams (snd (bundle_descriptor b name dk cf h ok u t)))"
  "s \<noteq> name \<Longrightarrow> hget (rb_streams (snd (bundle_descriptor b name dk cf h ok u t))) s = hget (rb_streams b) s"
  by (simp_all add: bundle_descriptor_def Let_def split: option.splits)

lemma bundle_descriptor_here:
  "\<exists>st. hget (rb_streams (snd (bundle_descriptor b name dk cf h ok u t))) name = Some st
     \<and> ss_descriptor st = fst (fst (bundle_descriptor b name dk cf h ok u t))
     \<and> (hget (rb_streams b) name = Some st
        \<or> hget (rb_streams b) name = None \<and> ss_seq_num st = 0 \<and> desc_uid (ss_descriptor st) = u
          \<and> desc_run_start (ss_descriptor st) = rb_start_uid b \<and> desc_name (ss_descriptor st) = Some name
          \<and> desc_data_keys (ss_descriptor st) = dk \<and> desc_configuration (ss_descriptor st) = cf
          \<and> desc_hints (ss_descriptor st) = h \<and> desc_object_keys (ss_descriptor st) = ok)"
  by (auto simp: bundle_descriptor_def Let_def split: option.splits)

lemma bundler_inv_prepare:
  assumes inv: "bundler_inv b" and u: "u \<noteq> ''''"
  shows "bundler_inv (snd (prepare_stream b s objs u t))"
proof -
  let ?sh = "shape_stream objs"
  let ?h = "if sh_hints ?sh = [] then None else Some (sh_hints ?sh)"
  let ?r = "bundle_descriptor (bd_bundle b) s (sh_data_keys ?sh) (sh_configuration ?sh) ?h (sh_object_keys ?sh) u t"
  have eq: "snd (prepare_stream b s objs u t)
      = b\<lparr> bd_bundle := snd ?r, bd_descriptors := hput s (desc_uid (fst (fst ?r))) (bd_descriptors b) \<rparr>"
    by (simp add: prepare_stream_def Let_def split_beta)
  obtain st where st: "hget (rb_streams (snd ?r)) s = Some st" "ss_descriptor st = fst (fst ?r)"
    and old: "hget (rb_streams (bd_bundle b)) s = Some st
        \<or> hget (rb_streams (bd_bundle b)) s = None \<and> desc_uid (ss_descriptor st) = u
          \<and> desc_run_start (ss_descriptor st) = rb_start_uid (bd_bundle b)
          \<and> desc_name (ss_descriptor st) = Some s"
    using bundle_descriptor_here [of "bd_bundle b" s] by blast
  have ok: "stream_ok (bd_start_uid b) s st"
    using old u bundler_invD [OF inv] by (auto simp: stream_ok_def)
  have new: "hget (rb_streams (snd ?r)) = (hget (rb_streams (bd_bundle b)))(s \<mapsto> st)"
    using st(1) bundle_descriptor_frame(3) by (auto simp: fun_eq_iff)
  show ?thesis
    using bundler_invD [OF inv] st(2) ok unfolding eq bundler_inv_def descriptor_uid_for_def
    by (simp add: bundle_descriptor_frame new)
qed

lemma prepare_stream_descriptor:
  assumes "bundler_inv b" and "u \<noteq> ''''"
  shows "descriptor_uid_for (bd_bundle (snd (prepare_stream b s objs u t))) s
           = Some (desc_uid (fst (prepare_stream b s objs u t)))"
  using bundler_invD(4) [OF bundler_inv_prepare [OF assms], of s objs t s]
  by (simp add: prepare_stream_def Let_def split_beta)

lemma prepare_stream_open [simp]: "bd_open (snd (prepare_stream b s objs u t)) = bd_open b"
  by (simp add: prepare_stream_def Let_def split_beta)

lemma prepare_stream_start [simp]: "bd_start_uid (snd (prepare_stream b s objs u t)) = bd_start_uid b"
  by (simp add: prepare_stream_def Let_def split_beta)

text \<open>A candidate of \<open>compose_reconfigure\<close> names a declared stream of this run.\<close>

lemma compose_reconfigure_names:
  assumes inv: "bundler_inv b" and d: "d \<in> set (compose_reconfigure b obj cfg fresh t)"
  shows "\<exists>s st. hget (rb_streams (bd_bundle b)) s = Some st \<and> desc_name d = Some s
           \<and> desc_run_start d = bd_start_uid b \<and> desc_uid d = fresh s
           \<and> hget (desc_configuration d) obj = Some cfg
           \<and> desc_data_keys d = desc_data_keys (ss_descriptor st)"
proof -
  from d obtain s where "compose_redescribe (bd_bundle b) s obj cfg (fresh s) t = Some d"
    by (auto simp: compose_reconfigure_def set_filter_map)
  then obtain st where st: "hget (rb_streams (bd_bundle b)) s = Some st"
    and eq: "d = (ss_descriptor st)\<lparr> desc_uid := fresh s, desc_time := t,
               desc_configuration := hput obj cfg (desc_configuration (ss_descriptor st)) \<rparr>"
    by (auto simp: compose_redescribe_def split: option.splits if_splits)
  have "stream_ok (bd_start_uid b) s st" by (rule bundler_invD(5) [OF inv st])
  then show ?thesis using st eq by (auto simp: stream_ok_def)
qed

lemma bundler_inv_install_one:
  assumes inv: "bundler_inv b" and name: "desc_name d = Some s"
    and decl: "hget (rb_streams (bd_bundle b)) s = Some st"
    and run: "desc_run_start d = bd_start_uid b" and u: "desc_uid d \<noteq> ''''"
  shows "bundler_inv (install_one d b)"
    and "\<forall>s'. (hget (rb_streams (bd_bundle (install_one d b))) s' = None)
              = (hget (rb_streams (bd_bundle b)) s' = None)"
    and "bd_start_uid (install_one d b) = bd_start_uid b"
    and "bundle_seq (bd_bundle (install_one d b)) = bundle_seq (bd_bundle b)"
  using assms
  by (auto simp: install_one_def bundler_inv_def install_descriptor_def descriptor_uid_for_def
           stream_ok_def bundle_seq_def fun_eq_iff)

lemma install_reconfigured_inv:
  assumes "bundler_inv b"
    and "\<forall>d\<in>set ds. desc_run_start d = bd_start_uid b \<and> desc_uid d \<noteq> ''''
           \<and> (\<exists>s. desc_name d = Some s \<and> hget (rb_streams (bd_bundle b)) s \<noteq> None)"
  shows "bundler_inv (install_reconfigured b ds)
       \<and> bundle_seq (bd_bundle (install_reconfigured b ds)) = bundle_seq (bd_bundle b)"
  using assms
proof (induction ds arbitrary: b)
  case Nil
  then show ?case by (simp add: install_reconfigured_def)
next
  case (Cons d ds)
  then obtain s st where s: "desc_name d = Some s" "hget (rb_streams (bd_bundle b)) s = Some st"
    and d: "desc_run_start d = bd_start_uid b" "desc_uid d \<noteq> ''''" by auto
  note one = bundler_inv_install_one [OF Cons.prems(1) s d]
  have "\<forall>d'\<in>set ds. desc_run_start d' = bd_start_uid (install_one d b) \<and> desc_uid d' \<noteq> ''''
      \<and> (\<exists>s. desc_name d' = Some s \<and> hget (rb_streams (bd_bundle (install_one d b))) s \<noteq> None)"
    using Cons.prems(2) one(2,3) by auto
  from Cons.IH [OF one(1) this] one(4) show ?case
    by (simp add: install_reconfigured_def)
qed

lemma bundler_inv_save:
  assumes "bundler_inv b" and "u \<noteq> ''''"
  shows "bundler_inv (snd (bundler_save b u v t))"
proof (cases "bd_open b")
  case None
  then show ?thesis using assms by (simp add: bundler_save_def)
next
  case (Some ob)
  let ?b1 = "b\<lparr> bd_open := None \<rparr>"
  let ?b2 = "if needs_descriptor ?b1 (ob_stream_name ob)
             then snd (prepare_stream ?b1 (ob_stream_name ob) (ob_objs ob) u t) else ?b1"
  have b1: "bundler_inv ?b1" using assms by simp
  then have b2: "bundler_inv ?b2" using bundler_inv_prepare [OF b1 assms(2)] by simp
  show ?thesis
    using bundler_inv_event [OF b2] b2 b1 Some
    by (auto simp: bundler_save_def Let_def split_beta split: option.splits if_splits)
qed

section \<open>The bundler as a transition system\<close>

text \<open>What the engine does to a run's bundler between two checkpoint operations, and the
  checkpoint operations. \<open>event\<close> is an event composed straight on the shared bundle (monitor
  pumps, \<open>collect\<close>, the interruptions stream), \<open>advance\<close> the counter bump of an asset drain.\<close>

inductive bundler_work :: "RunBundler \<Rightarrow> RunBundler \<Rightarrow> bool" where
  w_create: "bundler_create b s = Ok b' \<Longrightarrow> bundler_work b b'"
| w_read: "add_read b obj rds = Ok b' \<Longrightarrow> bundler_work b b'"
| w_save: "u \<noteq> '''' \<Longrightarrow> bundler_work b (snd (bundler_save b u v t))"
| w_drop: "bundler_work b (snd (drop_bundle b))"
| w_declare: "u \<noteq> '''' \<Longrightarrow> bundler_work b (snd (declare_stream b s objs u t))"
| w_declared: "bundler_work b (record_declared_stream b names s)"
| w_cache: "bundler_work b (cache_configuration b obj cfg)"
| w_reconfigure: "\<forall>s. fresh s \<noteq> '''' \<Longrightarrow>
    bundler_work b (install_reconfigured b (compose_reconfigure b obj cfg fresh t))"
| w_event: "bundler_work b (b\<lparr> bd_bundle := snd (bundle_event (bd_bundle b) s d ts v t) \<rparr>)"
| w_advance: "bundler_work b (b\<lparr> bd_bundle := snd (advance_seq (bd_bundle b) s n) \<rparr>)"
| w_resource_keys: "bundler_work b (b\<lparr> bd_stream_resource_data_keys := m \<rparr>)"

inductive bundler_step :: "RunBundler \<Rightarrow> RunBundler \<Rightarrow> bool" where
  w_work: "bundler_work b b' \<Longrightarrow> bundler_step b b'"
| w_reset_checkpoint: "bundler_step b (bundler_reset_checkpoint b)"
| w_clear_checkpoint: "bundler_step b (bundler_clear_checkpoint b)"
| w_rewind: "bundler_step b (bundler_rewind b)"

definition bundler_init :: "RunBundler \<Rightarrow> bool" where
  "bundler_init b \<longleftrightarrow> (\<exists>start. b = bundler_new (bundle_open start))"

interpretation bds: transition_system bundler_init bundler_step .

lemma bundler_work_inv: "bundler_work b b' \<Longrightarrow> bundler_inv b \<Longrightarrow> bundler_inv b'"
proof (induction rule: bundler_work.induct)
  case (w_create b s b')
  then show ?case by (auto simp: bundler_create_def split: if_splits)
next
  case (w_read b obj rds b')
  then show ?case by (auto simp: add_read_def split: option.splits)
next
  case (w_save u b v t)
  then show ?case by (blast intro: bundler_inv_save)
next
  case (w_drop b)
  then show ?case by (simp add: drop_bundle_def)
next
  case (w_declare u b s objs t)
  then show ?case by (simp add: declare_stream_def bundler_inv_prepare)
next
  case (w_reconfigure fresh b obj cfg t)
  then have "\<forall>d\<in>set (compose_reconfigure b obj cfg fresh t).
      desc_run_start d = bd_start_uid b \<and> desc_uid d \<noteq> ''''
      \<and> (\<exists>s. desc_name d = Some s \<and> hget (rb_streams (bd_bundle b)) s \<noteq> None)"
    using compose_reconfigure_names by fastforce
  then show ?case using install_reconfigured_inv w_reconfigure.prems by blast
next
  case (w_event b s d ts v t)
  then show ?case by (rule bundler_inv_event)
next
  case (w_advance b s n)
  then show ?case by (rule bundler_inv_advance)
qed (simp_all add: record_declared_stream_def cache_configuration_def)

lemma bundler_step_inv: "bundler_step b b' \<Longrightarrow> bundler_inv b \<Longrightarrow> bundler_inv b'"
  by (induction rule: bundler_step.induct)
    (auto simp: bundler_work_inv bundler_inv_rewind bundler_reset_checkpoint_def
          bundler_clear_checkpoint_def)

lemma bundler_reach_inv: "bds.reach b \<Longrightarrow> bundler_inv b"
  by (rule bds.reach_invariant) (auto simp: bundler_init_def bundler_inv_new intro: bundler_step_inv)

text \<open>C13. The two descriptor caches never disagree: in every state a bundler can reach from
  \<open>RunBundler::new\<close> by any sequence of its operations, the uid \<open>descriptor_uid\<close> reports for a
  stream is exactly the uid the composer stamps on the stream's next event, and that descriptor
  belongs to this run and carries the stream's name.\<close>

theorem descriptor_caches_agree:
  assumes "bds.reach b"
  shows "descriptor_uid b s = descriptor_uid_for (bd_bundle b) s
    \<and> (\<forall>st. hget (rb_streams (bd_bundle b)) s = Some st \<longrightarrow>
           desc_name (ss_descriptor st) = Some s \<and> desc_run_start (ss_descriptor st) = bd_start_uid b)"
  using descriptor_uid_inv [OF bundler_reach_inv [OF assms]]
    bundler_invD(5) [OF bundler_reach_inv [OF assms]]
  by (auto simp: stream_ok_def)

definition sample_new :: RunBundler where
  "sample_new = bundler_new (bundle_open (bundle_start ''run'' 0 None None))"

definition sample_object :: StreamObject where
  "sample_object = \<lparr> so_object = Some ''det'',
     so_data_keys = [(''det_value'', make_datakey ''det'' DtNumber [] None
        \<lparr> sm_limits = None, sm_choices = None, sm_precision = None, sm_units = None \<rparr>)],
     so_hint_fields = Some [''det_value''], so_configuration = default_configuration \<rparr>"

definition sample_reading :: readings where
  "sample_reading = [(''det_value'', \<lparr> rd_value = JInt 5, rd_timestamp = 1,
     rd_alarm_severity = None, rd_message = None \<rparr>)]"

definition sample_ob :: OpenBundle where
  "sample_ob = \<lparr> ob_stream_name = ''primary'', ob_readings = sample_reading, ob_objs = [sample_object] \<rparr>"

lemma sample_new_inv [simp]: "bundler_inv sample_new"
  by (simp add: sample_new_def bundler_inv_new)

lemma sample_new_reach: "bds.reach sample_new"
  by (rule bds.reach_init) (auto simp: bundler_init_def sample_new_def)

lemma sample_declared_reach: "bds.reach (snd (declare_stream sample_new ''primary'' [sample_object] ''d1'' 0))"
  by (rule bds.reach_step [OF sample_new_reach w_work]) (simp add: w_declare)

lemma sample_declared_inv [simp]:
  "bundler_inv (snd (declare_stream sample_new ''primary'' [sample_object] ''d1'' 0))"
  by (rule bundler_reach_inv [OF sample_declared_reach])

lemmas sample_simps = sample_new_def sample_object_def sample_reading_def sample_ob_def
  bundler_new_def bundle_open_def bundle_start_def declare_stream_def prepare_stream_def
  shape_stream_def shape_object_def empty_shape_def bundle_descriptor_def descriptor_uid_for_def
  descriptor_uid_def hmem_def bundle_seq_def Let_def

theorem descriptor_caches_agree_witness:
  "descriptor_uid_for (bd_bundle (snd (declare_stream sample_new ''primary'' [sample_object] ''d1'' 0))) ''primary''
     = Some ''d1''"
  using descriptor_caches_agree [OF sample_declared_reach, of "''primary''"]
  by (simp add: sample_simps)

section \<open>Saving\<close>

lemma bundle_event_declared:
  assumes "hget (rb_streams b) s = Some st"
  shows "bundle_event b s d ts u t =
     (Some \<lparr> ev_uid = u, ev_descriptor = desc_uid (ss_descriptor st), ev_time = t,
             ev_seq_num = ss_seq_num st + 1, ev_data = d, ev_timestamps = ts, ev_filled = [] \<rparr>,
      b\<lparr> rb_streams := hput s (st\<lparr> ss_seq_num := ss_seq_num st + 1 \<rparr>) (rb_streams b) \<rparr>)"
  using assms by (simp add: bundle_event_def Let_def)

definition saved_event :: "OpenBundle \<Rightarrow> string \<Rightarrow> f64 \<Rightarrow> string \<Rightarrow> u64 \<Rightarrow> Event" where
  "saved_event ob v t duid n =
     \<lparr> ev_uid = v, ev_descriptor = duid, ev_time = t, ev_seq_num = n,
       ev_data = event_data (ob_readings ob), ev_timestamps = event_timestamps (ob_readings ob),
       ev_filled = [] \<rparr>"

lemma save_open:
  assumes inv: "bundler_inv b" and ob: "bd_open b = Some ob" and objs: "ob_objs ob \<noteq> []"
    and u: "u \<noteq> ''''"
  defines "s \<equiv> ob_stream_name ob"
  shows "hget (rb_streams (bd_bundle b)) s = Some st \<Longrightarrow>
      fst (bundler_save b u v t) = Ok [DocEvent (saved_event ob v t (desc_uid (ss_descriptor st)) (ss_seq_num st + 1))]"
    and "hget (rb_streams (bd_bundle b)) s = None \<Longrightarrow>
      \<exists>d. fst (bundler_save b u v t) = Ok [DocDescriptor d, DocEvent (saved_event ob v t u 1)]
        \<and> desc_uid d = u \<and> desc_run_start d = bd_start_uid b \<and> desc_name d = Some s
        \<and> desc_data_keys d = sh_data_keys (shape_stream (ob_objs ob))
        \<and> desc_object_keys d = sh_object_keys (shape_stream (ob_objs ob))
        \<and> desc_configuration d = sh_configuration (shape_stream (ob_objs ob))"
proof -
  let ?b1 = "b\<lparr> bd_open := None \<rparr>"
  have need: "needs_descriptor ?b1 s = (hget (rb_streams (bd_bundle b)) s = None)"
    using needs_descriptor_inv [of ?b1 s] inv by simp
  show "fst (bundler_save b u v t) = Ok [DocEvent (saved_event ob v t (desc_uid (ss_descriptor st)) (ss_seq_num st + 1))]"
    if "hget (rb_streams (bd_bundle b)) s = Some st"
    using that need ob objs
    by (simp add: bundler_save_def Let_def s_def saved_event_def bundle_event_declared)
  assume none: "hget (rb_streams (bd_bundle b)) s = None"
  let ?p = "prepare_stream ?b1 s (ob_objs ob) u t"
  let ?d = "fst ?p"
  have "hget (rb_streams (bd_bundle (snd ?p))) s = Some \<lparr> ss_descriptor = ?d, ss_seq_num = 0 \<rparr>
      \<and> desc_uid ?d = u \<and> desc_run_start ?d = bd_start_uid b \<and> desc_name ?d = Some s
      \<and> desc_data_keys ?d = sh_data_keys (shape_stream (ob_objs ob))
      \<and> desc_object_keys ?d = sh_object_keys (shape_stream (ob_objs ob))
      \<and> desc_configuration ?d = sh_configuration (shape_stream (ob_objs ob))"
    using none bundler_invD(1) [OF inv]
    by (simp add: prepare_stream_def bundle_descriptor_def Let_def)
  then show "\<exists>d. fst (bundler_save b u v t) = Ok [DocDescriptor d, DocEvent (saved_event ob v t u 1)]
        \<and> desc_uid d = u \<and> desc_run_start d = bd_start_uid b \<and> desc_name d = Some s
        \<and> desc_data_keys d = sh_data_keys (shape_stream (ob_objs ob))
        \<and> desc_object_keys d = sh_object_keys (shape_stream (ob_objs ob))
        \<and> desc_configuration d = sh_configuration (shape_stream (ob_objs ob))"
    using need none ob objs
    by (auto simp: bundler_save_def Let_def split_beta s_def [symmetric] saved_event_def bundle_event_declared)
qed

text \<open>C23. What a \<open>save\<close> of a non-empty bundle emits. On a stream that already has a descriptor:
  one event that names this descriptor and takes the next sequence number. On a new stream: a
  fresh descriptor of this run under the stream's name, followed by the event number 1 that names
  it. In both cases the event carries exactly the values and timestamps read, and the bundle is
  closed.\<close>

theorem save_emits:
  assumes "bundler_inv b" and "bd_open b = Some ob" and "ob_objs ob \<noteq> []" and "u \<noteq> ''''"
  shows "bd_open (snd (bundler_save b u v t)) = None \<and>
    (\<exists>pre e. fst (bundler_save b u v t) = Ok (pre @ [DocEvent e])
      \<and> ev_seq_num e = (case bundle_seq (bd_bundle b) (ob_stream_name ob) of None \<Rightarrow> 1 | Some n \<Rightarrow> n + 1)
      \<and> (case descriptor_uid b (ob_stream_name ob) of
           Some d0 \<Rightarrow> pre = [] \<and> ev_descriptor e = d0
         | None \<Rightarrow> \<exists>d. pre = [DocDescriptor d] \<and> desc_uid d = u \<and> ev_descriptor e = u
                     \<and> desc_run_start d = bd_start_uid b \<and> desc_name d = Some (ob_stream_name ob))
      \<and> hget (ev_data e) = map_option rd_value \<circ> hget (ob_readings ob)
      \<and> hget (ev_timestamps e) = map_option rd_timestamp \<circ> hget (ob_readings ob))"
proof
  show "bd_open (snd (bundler_save b u v t)) = None"
    using assms(2) by (auto simp: bundler_save_def Let_def split_beta split: option.splits)
  have maps: "hget (event_data (ob_readings ob)) = map_option rd_value \<circ> hget (ob_readings ob)"
    "hget (event_timestamps (ob_readings ob)) = map_option rd_timestamp \<circ> hget (ob_readings ob)"
    by (auto simp: event_data_def event_timestamps_def fun_eq_iff)
  note sv = save_open [where v = v and t = t, OF assms]
  show "\<exists>pre e. fst (bundler_save b u v t) = Ok (pre @ [DocEvent e])
      \<and> ev_seq_num e = (case bundle_seq (bd_bundle b) (ob_stream_name ob) of None \<Rightarrow> 1 | Some n \<Rightarrow> n + 1)
      \<and> (case descriptor_uid b (ob_stream_name ob) of
           Some d0 \<Rightarrow> pre = [] \<and> ev_descriptor e = d0
         | None \<Rightarrow> \<exists>d. pre = [DocDescriptor d] \<and> desc_uid d = u \<and> ev_descriptor e = u
                     \<and> desc_run_start d = bd_start_uid b \<and> desc_name d = Some (ob_stream_name ob))
      \<and> hget (ev_data e) = map_option rd_value \<circ> hget (ob_readings ob)
      \<and> hget (ev_timestamps e) = map_option rd_timestamp \<circ> hget (ob_readings ob)"
  proof (cases "hget (rb_streams (bd_bundle b)) (ob_stream_name ob)")
    case None
    from sv(2) [OF None] obtain d where d: "fst (bundler_save b u v t) = Ok [DocDescriptor d,
        DocEvent (saved_event ob v t u 1)]" "desc_uid d = u" "desc_run_start d = bd_start_uid b"
      "desc_name d = Some (ob_stream_name ob)" by auto
    show ?thesis
      by (rule exI [of _ "[DocDescriptor d]"])
        (use d None maps descriptor_uid_inv [OF assms(1)] in
          \<open>simp add: bundle_seq_def descriptor_uid_for_def saved_event_def\<close>)
  next
    case (Some st)
    show ?thesis
      by (rule exI [of _ "[]"])
        (use sv(1) [OF Some] Some maps descriptor_uid_inv [OF assms(1)] in
          \<open>simp add: bundle_seq_def descriptor_uid_for_def saved_event_def\<close>)
  qed
qed

theorem save_emits_witness:
  "bd_open (snd (bundler_save (sample_new\<lparr> bd_open := Some sample_ob \<rparr>) ''d1'' ''e1'' 7)) = None"
  using save_emits [where b = "sample_new\<lparr> bd_open := Some sample_ob \<rparr>" and ob = sample_ob
      and u = "''d1''" and v = "''e1''" and t = 7]
  by (simp add: sample_ob_def)

section \<open>The descriptor covers its events\<close>

text \<open>A list of reads folded into the open bundle; the first error stops it.\<close>

fun read_all :: "RunBundler \<Rightarrow> (StreamObject \<times> readings) list \<Rightarrow> RunBundler outcome" where
  "read_all b [] = Ok b"
| "read_all b ((obj, rds) # rs) =
     (case add_read b obj rds of Ok b' \<Rightarrow> read_all b' rs | Err e \<Rightarrow> Err e | Panic p \<Rightarrow> Panic p | Hang \<Rightarrow> Hang)"

lemma set_hkeys_hextend [simp]: "set (hkeys (hextend m kvs)) = set (hkeys m) \<union> set (hkeys kvs)"
proof (induction kvs arbitrary: m)
  case (Cons kv kvs)
  obtain k v where kv: "kv = (k, v)" by (cases kv)
  have "set (hkeys (hextend m (kv # kvs))) = set (hkeys (hextend (hput k v m) kvs))" by (simp add: kv)
  also have "\<dots> = insert k (set (hkeys m)) \<union> set (hkeys kvs)"
    by (simp only: Cons.IH set_hkeys_hput)
  finally show ?case by (simp add: kv)
qed simp

lemma shape_object_keys:
  "set (hkeys (sh_data_keys (shape_object o1 sh))) = set (hkeys (sh_data_keys sh)) \<union> set (hkeys (so_data_keys o1))"
  by (simp add: shape_object_def del: set_map split: option.splits)

lemma shape_stream_keys:
  "set (hkeys (sh_data_keys (shape_stream objs))) = (\<Union>o1\<in>set objs. set (hkeys (so_data_keys o1)))"
proof -
  have "set (hkeys (sh_data_keys (fold shape_object objs sh)))
          = set (hkeys (sh_data_keys sh)) \<union> (\<Union>o1\<in>set objs. set (hkeys (so_data_keys o1)))" for sh
    by (induction objs arbitrary: sh) (auto simp: shape_object_keys simp del: set_map)
  then show ?thesis by (simp add: shape_stream_def empty_shape_def)
qed

lemma add_read_Ok:
  assumes "add_read b obj rds = Ok b'" and "bd_open b = Some ob"
  shows "b' = b\<lparr> bd_open := Some (ob\<lparr> ob_readings := hextend (ob_readings ob) rds,
                                    ob_objs := ob_objs ob @ [obj] \<rparr>) \<rparr>"
  using assms by (auto simp: add_read_def split: option.splits)

lemma read_all_Ok:
  "read_all b rs = Ok b' \<Longrightarrow> bd_open b = Some ob \<Longrightarrow>
   \<exists>ob'. b' = b\<lparr> bd_open := Some ob' \<rparr> \<and> ob_stream_name ob' = ob_stream_name ob
     \<and> ob_objs ob' = ob_objs ob @ map fst rs
     \<and> set (hkeys (ob_readings ob')) = set (hkeys (ob_readings ob)) \<union> (\<Union>r\<in>set rs. set (hkeys (snd r)))"
proof (induction rs arbitrary: b ob)
  case Nil
  then show ?case by (auto intro!: exI [of _ ob])
next
  case (Cons r rs)
  obtain obj rds where r: "r = (obj, rds)" by (cases r)
  from Cons.prems r obtain b1 where b1: "add_read b obj rds = Ok b1" "read_all b1 rs = Ok b'"
    by (auto split: outcome.splits)
  let ?ob = "ob\<lparr> ob_readings := hextend (ob_readings ob) rds, ob_objs := ob_objs ob @ [obj] \<rparr>"
  have eq: "b1 = b\<lparr> bd_open := Some ?ob \<rparr>" by (rule add_read_Ok [OF b1(1) Cons.prems(2)])
  then obtain ob' where ob': "b' = b1\<lparr> bd_open := Some ob' \<rparr>" "ob_stream_name ob' = ob_stream_name ?ob"
    "ob_objs ob' = ob_objs ?ob @ map fst rs"
    "set (hkeys (ob_readings ob')) = set (hkeys (ob_readings ?ob)) \<union> (\<Union>r\<in>set rs. set (hkeys (snd r)))"
    using Cons.IH [OF b1(2), of ?ob] by auto
  show ?case
    by (rule exI [of _ ob'], use eq ob' r in \<open>auto simp del: set_map\<close>)
qed

text \<open>C24. The schema covers the data. Create a bundle on a stream without descriptor, read any
  non-empty list of objects into it (each object's \<open>describe()\<close> naming exactly the fields its
  \<open>read()\<close> returned), and save: the result is one descriptor followed by one event, and the
  event's data and timestamps have exactly the descriptor's data keys.\<close>

theorem descriptor_covers_event:
  assumes inv: "bundler_inv b" and new: "descriptor_uid b s = None"
    and created: "bundler_create b s = Ok b0" and reads: "read_all b0 rs = Ok b1" and "rs \<noteq> []"
    and contract: "\<forall>(obj, rds)\<in>set rs. set (hkeys (so_data_keys obj)) = set (hkeys rds)"
    and u: "u \<noteq> ''''"
  shows "\<exists>d e. fst (bundler_save b1 u v t) = Ok [DocDescriptor d, DocEvent e]
           \<and> ev_descriptor e = desc_uid d
           \<and> set (hkeys (ev_data e)) = set (hkeys (desc_data_keys d))
           \<and> set (hkeys (ev_timestamps e)) = set (hkeys (desc_data_keys d))"
proof -
  have b0: "b0 = b\<lparr> bd_open := Some \<lparr> ob_stream_name = s, ob_readings = [], ob_objs = [] \<rparr> \<rparr>"
    using created by (auto simp: bundler_create_def split: if_splits)
  then obtain ob where ob: "b1 = b0\<lparr> bd_open := Some ob \<rparr>" "ob_stream_name ob = s"
    "ob_objs ob = map fst rs" "set (hkeys (ob_readings ob)) = (\<Union>r\<in>set rs. set (hkeys (snd r)))"
    using read_all_Ok [OF reads] by fastforce
  have inv1: "bundler_inv b1" and op: "bd_open b1 = Some ob" and ne: "ob_objs ob \<noteq> []"
    and same: "bd_bundle b1 = bd_bundle b"
    using inv ob b0 \<open>rs \<noteq> []\<close> by auto
  have none: "hget (rb_streams (bd_bundle b1)) (ob_stream_name ob) = None"
    using new descriptor_uid_inv [OF inv] by (simp add: same ob(2) descriptor_uid_for_def)
  from save_open(2) [OF inv1 op ne u none] obtain d where
    d: "fst (bundler_save b1 u v t) = Ok [DocDescriptor d, DocEvent (saved_event ob v t u 1)]"
      "desc_uid d = u" "desc_data_keys d = sh_data_keys (shape_stream (ob_objs ob))" by blast
  have "set (hkeys (desc_data_keys d)) = (\<Union>r\<in>set rs. set (hkeys (so_data_keys (fst r))))"
    by (simp add: d(3) shape_stream_keys ob(3) del: set_map) simp
  also have "\<dots> = set (hkeys (ob_readings ob))"
    unfolding ob(4) using contract by (intro SUP_cong refl) (auto split: prod.splits)
  finally show ?thesis
    using d by (auto simp: saved_event_def event_data_def event_timestamps_def simp del: set_map)
qed

theorem descriptor_covers_event_witness:
  "\<exists>d e. fst (bundler_save (sample_new\<lparr> bd_open := Some sample_ob \<rparr>) ''d1'' ''e1'' 7)
       = Ok [DocDescriptor d, DocEvent e]
     \<and> set (hkeys (ev_data e)) = set (hkeys (desc_data_keys d))"
  using descriptor_covers_event [OF sample_new_inv, where s = "''primary''"
      and ?b0.0 = "sample_new\<lparr> bd_open := Some \<lparr> ob_stream_name = ''primary'', ob_readings = [], ob_objs = [] \<rparr> \<rparr>"
      and rs = "[(sample_object, sample_reading)]" and ?b1.0 = "sample_new\<lparr> bd_open := Some sample_ob \<rparr>"
      and u = "''d1''" and v = "''e1''" and t = 7]
  by (force simp: sample_simps bundler_create_def add_read_def)

section \<open>Reconfiguration\<close>

lemma install_one_uid:
  "desc_name d = Some s \<Longrightarrow> hget (bd_descriptors (install_one d b)) s' =
     (if s' = s then Some (desc_uid d) else hget (bd_descriptors b) s')"
  by (simp add: install_one_def)

lemma install_reconfigured_exact:
  assumes "\<forall>s d. f s = Some d \<longrightarrow> desc_name d = Some s"
  shows "hget (rb_streams (bd_bundle (install_reconfigured b (filter_map f names)))) s =
     map_option (\<lambda>st. case f s of Some d \<Rightarrow> if s \<in> set names then st\<lparr> ss_descriptor := d \<rparr> else st | None \<Rightarrow> st)
       (hget (rb_streams (bd_bundle b)) s)"
proof (induction names arbitrary: b)
  case Nil
  then show ?case by (cases "f s") (simp_all add: install_reconfigured_def option.map_ident)
next
  case (Cons n names)
  show ?case
  proof (cases "f n")
    case None
    then have "(case f s of Some d \<Rightarrow> if s \<in> set names then st\<lparr> ss_descriptor := d \<rparr> else st | None \<Rightarrow> st)
        = (case f s of Some d \<Rightarrow> if s \<in> set (n # names) then st\<lparr> ss_descriptor := d \<rparr> else st | None \<Rightarrow> st)" for st
      by (auto split: option.splits)
    then show ?thesis using None Cons.IH [of b] by (cases "hget (rb_streams (bd_bundle b)) s") simp_all
  next
    case (Some d)
    then have d: "desc_name d = Some n" using assms by blast
    have one: "hget (rb_streams (bd_bundle (install_one d b))) s
        = map_option (\<lambda>st. if s = n then st\<lparr> ss_descriptor := d \<rparr> else st) (hget (rb_streams (bd_bundle b)) s)"
      by (cases "hget (rb_streams (bd_bundle b)) s") (auto simp: install_one_def d install_descriptor_def split: option.split)
    show ?thesis
      using Some Cons.IH [of "install_one d b"]
      by (cases "hget (rb_streams (bd_bundle b)) s") (auto simp: install_reconfigured_def one split: option.splits)
  qed
qed

text \<open>C25. Reconfiguring an object gives every declared stream that contains it a new descriptor generation: the old
  descriptor with the stream's fresh uid, the time of the call and the new configuration under the object's name, all else as it
  was. Every other stream keeps its descriptor, every stream its sequence counter, and the caches stay in
  agreement, so that the next event of a stream names the new generation.\<close>

theorem reconfigure_generations:
  assumes inv: "bundler_inv b" and fresh: "\<forall>s. fresh s \<noteq> ''''"
    and b'_def: "b' = install_reconfigured b (compose_reconfigure b obj cfg fresh t)"
  shows "bundler_inv b'
     \<and> (\<forall>s. hget (rb_streams (bd_bundle b')) s = map_option (\<lambda>st.
            if hmem obj (desc_configuration (ss_descriptor st))
            then st\<lparr> ss_descriptor := (ss_descriptor st)\<lparr> desc_uid := fresh s, desc_time := t,
                      desc_configuration := hput obj cfg (desc_configuration (ss_descriptor st)) \<rparr> \<rparr>
            else st) (hget (rb_streams (bd_bundle b)) s))
     \<and> (\<forall>s. descriptor_uid b' s = map_option (\<lambda>st. desc_uid (ss_descriptor st)) (hget (rb_streams (bd_bundle b')) s))"
proof -
  let ?f = "\<lambda>name. compose_redescribe (bd_bundle b) name obj cfg (fresh name) t"
  have "\<forall>d\<in>set (compose_reconfigure b obj cfg fresh t).
      desc_run_start d = bd_start_uid b \<and> desc_uid d \<noteq> ''''
      \<and> (\<exists>s. desc_name d = Some s \<and> hget (rb_streams (bd_bundle b)) s \<noteq> None)"
    using compose_reconfigure_names [OF inv] fresh by fastforce
  from install_reconfigured_inv [OF inv this]
  have inv': "bundler_inv b'" and seq': "bundle_seq (bd_bundle b') = bundle_seq (bd_bundle b)"
    by (auto simp: b'_def)
  have names: "\<forall>s d. ?f s = Some d \<longrightarrow> desc_name d = Some s"
    using bundler_invD(5) [OF inv]
    by (fastforce simp: compose_redescribe_def stream_ok_def split: option.splits if_splits)
  have streams: "hget (rb_streams (bd_bundle b')) s = map_option (\<lambda>st.
            if hmem obj (desc_configuration (ss_descriptor st))
            then st\<lparr> ss_descriptor := (ss_descriptor st)\<lparr> desc_uid := fresh s, desc_time := t,
                      desc_configuration := hput obj cfg (desc_configuration (ss_descriptor st)) \<rparr> \<rparr>
            else st) (hget (rb_streams (bd_bundle b)) s)" for s
    using install_reconfigured_exact [OF names, of b "hkeys (bd_descriptors b)" s] bundler_invD(4) [OF inv, of s]
    by (cases "hget (rb_streams (bd_bundle b)) s")
      (auto simp: b'_def compose_reconfigure_def compose_redescribe_def descriptor_uid_for_def
             hmem_keys [symmetric] hmem_def split: option.splits if_splits simp del: set_map)
  have "descriptor_uid b' s = map_option (\<lambda>st. desc_uid (ss_descriptor st)) (hget (rb_streams (bd_bundle b')) s)" for s
    using descriptor_uid_inv [OF inv', of s] by (simp add: descriptor_uid_for_def)
  with inv' streams show ?thesis by blast
qed

theorem reconfigure_generations_witness:
  "descriptor_uid
     (install_reconfigured (snd (declare_stream sample_new ''primary'' [sample_object] ''d1'' 0))
       (compose_reconfigure (snd (declare_stream sample_new ''primary'' [sample_object] ''d1'' 0))
          ''det'' default_configuration (\<lambda>s. ''d2'') 3)) ''primary'' = Some ''d2''"
  using reconfigure_generations [OF sample_declared_inv, where fresh = "\<lambda>s. ''d2''", OF _ refl,
      of "''det''" default_configuration 3]
  by (simp add: sample_simps)

section \<open>Checkpoint and rewind\<close>

lemma bundle_event_streams:
  "hget (rb_streams b) s \<noteq> None \<Longrightarrow> hget (rb_streams (snd (bundle_event b s' d ts v t))) s \<noteq> None"
  by (auto simp: bundle_event_def Let_def split: option.splits)

lemma prepare_stream_streams:
  "hget (rb_streams (bd_bundle b)) s \<noteq> None \<Longrightarrow>
   hget (rb_streams (bd_bundle (snd (prepare_stream b s' objs u t)))) s \<noteq> None"
  by (auto simp: prepare_stream_def bundle_descriptor_def Let_def split_beta split: option.splits)

lemma install_one_streams:
  "hget (rb_streams (bd_bundle b)) s \<noteq> None \<Longrightarrow> hget (rb_streams (bd_bundle (install_one d b))) s \<noteq> None"
  "bd_seq_snapshot (install_one d b) = bd_seq_snapshot b"
  by (auto simp: install_one_def install_descriptor_def split: option.splits)

lemma install_reconfigured_streams:
  "hget (rb_streams (bd_bundle b)) s \<noteq> None \<Longrightarrow>
     hget (rb_streams (bd_bundle (install_reconfigured b ds))) s \<noteq> None"
  "bd_seq_snapshot (install_reconfigured b ds) = bd_seq_snapshot b"
  by (induction ds arbitrary: b)
    (simp_all add: install_reconfigured_def install_one_streams del: not_None_eq)

lemma prepare_stream_snapshot [simp]:
  "bd_seq_snapshot (snd (prepare_stream b s objs u t)) = bd_seq_snapshot b"
  by (simp add: prepare_stream_def Let_def split_beta)

text \<open>Work never drops a declared stream and never touches the snapshot.\<close>

lemma bundler_work_streams:
  "bundler_work b b' \<Longrightarrow> bd_seq_snapshot b' = bd_seq_snapshot b
     \<and> (\<forall>s. bundle_seq (bd_bundle b) s \<noteq> None \<longrightarrow> bundle_seq (bd_bundle b') s \<noteq> None)"
proof (induction rule: bundler_work.induct)
  case (w_save u b v t)
  have "hget (rb_streams (bd_bundle b)) s \<noteq> None \<Longrightarrow>
      hget (rb_streams (bd_bundle (snd (bundler_save b u v t)))) s \<noteq> None" for s
    using prepare_stream_streams [of "b\<lparr> bd_open := None \<rparr>" s] bundle_event_streams
    by (fastforce simp: bundler_save_def Let_def split_beta split: option.splits)
  moreover have "bd_seq_snapshot (snd (bundler_save b u v t)) = bd_seq_snapshot b"
    by (auto simp: bundler_save_def Let_def split_beta split: option.splits)
  ultimately show ?case by (simp add: bundle_seq_def)
next
  case (w_declare u b s objs t)
  then show ?case using prepare_stream_streams [of b] by (simp add: declare_stream_def bundle_seq_def)
next
  case (w_reconfigure fresh b obj cfg t)
  then show ?case using install_reconfigured_streams [of b] by (simp add: bundle_seq_def)
qed (auto simp: bundler_create_def add_read_def drop_bundle_def record_declared_stream_def
       cache_configuration_def bundle_seq_def bundle_event_def advance_seq_def Let_def
     split: if_splits option.splits)

lemma bundler_works_streams:
  "bundler_work\<^sup>*\<^sup>* b b' \<Longrightarrow> bd_seq_snapshot b' = bd_seq_snapshot b
     \<and> (\<forall>s. bundle_seq (bd_bundle b) s \<noteq> None \<longrightarrow> bundle_seq (bd_bundle b') s \<noteq> None)"
  by (induction rule: rtranclp_induct) (auto dest: bundler_work_streams)

text \<open>C14. Rewinding to a checkpoint. Take a checkpoint, do any amount of work (saves, declares,
  reconfigurations, monitor events, counter advances), then rewind: no bundle is open, every
  stream declared at the checkpoint has its counter back, and every stream declared since
  restarts at 0, so the replayed saves are numbered as they were the first time.\<close>

theorem rewind_restores_counters:
  assumes "bundler_work\<^sup>*\<^sup>* (bundler_reset_checkpoint b) b'"
  shows "bd_open (bundler_rewind b') = None
     \<and> bundle_seq (bd_bundle (bundler_rewind b')) s =
         (case bundle_seq (bd_bundle b) s of
            Some n \<Rightarrow> Some n
          | None \<Rightarrow> if bundle_seq (bd_bundle b') s = None then None else Some 0)"
proof -
  have snap: "bd_seq_snapshot b' = Some (snapshot_seq_nums (bd_bundle b))"
    and keep: "bundle_seq (bd_bundle b) s \<noteq> None \<Longrightarrow> bundle_seq (bd_bundle b') s \<noteq> None"
    using bundler_works_streams [OF assms] by (auto simp: bundler_reset_checkpoint_def)
  have "bundle_seq (bd_bundle (bundler_rewind b')) s =
      map_option (\<lambda>_. case bundle_seq (bd_bundle b) s of None \<Rightarrow> 0 | Some v \<Rightarrow> v) (bundle_seq (bd_bundle b') s)"
    using rb.restore_seq [of "bd_bundle b'" "snapshot_seq_nums (bd_bundle b)" s]
      rb.snap_seq [of "bd_bundle b" s]
    by (simp add: bundler_rewind_def snap Let_def)
  then show ?thesis
    using keep snap by (auto simp: bundler_rewind_def Let_def split: option.splits)
qed

theorem rewind_restores_counters_witness:
  "bundle_seq (bd_bundle (bundler_rewind (snd (declare_stream (bundler_reset_checkpoint sample_new)
      ''primary'' [sample_object] ''d1'' 0)))) ''primary'' = Some 0"
  using rewind_restores_counters [where b = sample_new and s = "''primary''", OF r_into_rtranclp,
      OF w_declare [where u = "''d1''" and s = "''primary''" and objs = "[sample_object]" and t = 0]]
  by (simp add: sample_simps bundler_reset_checkpoint_def)

end
