(* ===== verification/Messages.thy ===== *)
theory Messages
  imports Bundler
begin

text \<open>
  The message vocabulary of plans (\<open>core/msg.rs\<close>, \<open>core/plan.rs\<close>). A shared device handle
  (\<open>Arc<dyn ...Obj>\<close>) is a \<open>device\<close>: its pointer identity and its name. Callbacks, awaitable
  factories, contingency sinks, suspenders and custom payloads are opaque to the engine and are
  numbers; what they do is an argument of the definitions that call them.

  A plan is a stream that may look at everything the engine did so far, at the reply to its last
  \<open>Respond\<close> item and at the sinks its contingency regions own, before it yields the next item.
\<close>

record device =
  dv_id :: nat
  dv_name :: string

type_synonym group_id = string
type_synonym sink_id = nat
type_synonym callback_id = nat
type_synonym suspender_id = nat
type_synonym subscription_id = u64

record RunMetadata =
  md_scan_id :: "u64 option"
  md_extra :: "(string, json) hmap"
  md_plan_name :: "string option"

type_synonym ConfigureArgs = "(string, json) hmap"

datatype Thrown = ThrownError BsrsError | ThrownInterrupt Interrupt "string option"

datatype StreamObjs = ReadableObjs "device list" | CollectableObjs "device list"

datatype Msg =
    OpenRun RunMetadata
  | CloseRun string "string option"
  | InRun string Msg
  | Create string
  | Save
  | Drop
  | DeclareStream string StreamObjs
  | Read device
  | Set device f64 "group_id option"
  | Trigger device "group_id option"
  | Stage device
  | Unstage device
  | Stop device bool
  | Kickoff device "group_id option"
  | Complete device "group_id option"
  | Collect device "string option"
  | Locate device
  | Monitor device "string option"
  | Unmonitor device
  | Wait group_id bool "duration option"
  | Sleep duration
  | Checkpoint
  | ClearCheckpoint
  | Pause bool
  | Configure device ConfigureArgs
  | Prepare device json "group_id option"
  | WaitFor "nat list" "duration option"
  | RegisterPausable device
  | UnregisterPausable device
  | Input string
  | ReClass
  | Subscribe callback_id DocFilter
  | Unsubscribe subscription_id
  | Fail string
  | Raise Thrown
  | Resume
  | InstallSuspender u64 "suspender_id option"
  | RemoveSuspender u64
  | Rewindable bool
  | Custom string nat
  | Publish Document
  | PushContingency sink_id
  | PopContingency
  | Null

definition in_run :: "string \<Rightarrow> Msg \<Rightarrow> Msg" where
  "in_run run inner = InRun run inner"

fun is_cacheable :: "Msg \<Rightarrow> bool" where
  "is_cacheable (InRun run inner) = is_cacheable inner"
| "is_cacheable (OpenRun _) = False"
| "is_cacheable (CloseRun _ _) = False"
| "is_cacheable (Pause _) = False"
| "is_cacheable Resume = False"
| "is_cacheable Checkpoint = False"
| "is_cacheable ClearCheckpoint = False"
| "is_cacheable (Monitor _ _) = False"
| "is_cacheable (Unmonitor _) = False"
| "is_cacheable (InstallSuspender _ _) = False"
| "is_cacheable (RemoveSuspender _) = False"
| "is_cacheable (RegisterPausable _) = False"
| "is_cacheable (UnregisterPausable _) = False"
| "is_cacheable (Rewindable _) = False"
| "is_cacheable (Custom _ _) = False"
| "is_cacheable (Publish _) = False"
| "is_cacheable (Locate _) = False"
| "is_cacheable (Input _) = False"
| "is_cacheable ReClass = False"
| "is_cacheable (Subscribe _ _) = False"
| "is_cacheable (Unsubscribe _) = False"
| "is_cacheable (Fail _) = False"
| "is_cacheable (Raise _) = False"
| "is_cacheable (PushContingency _) = False"
| "is_cacheable PopContingency = False"
| "is_cacheable Null = False"
| "is_cacheable _ = True"

fun obj_name :: "Msg \<Rightarrow> string option" where
  "obj_name (InRun run inner) = obj_name inner"
| "obj_name (Read o1) = Some (dv_name o1)"
| "obj_name (Set o1 _ _) = Some (dv_name o1)"
| "obj_name (Trigger o1 _) = Some (dv_name o1)"
| "obj_name (Locate o1) = Some (dv_name o1)"
| "obj_name (Stage o1) = Some (dv_name o1)"
| "obj_name (Unstage o1) = Some (dv_name o1)"
| "obj_name (Stop o1 _) = Some (dv_name o1)"
| "obj_name (Kickoff o1 _) = Some (dv_name o1)"
| "obj_name (Complete o1 _) = Some (dv_name o1)"
| "obj_name (Collect o1 _) = Some (dv_name o1)"
| "obj_name (Monitor o1 _) = Some (dv_name o1)"
| "obj_name (Unmonitor o1) = Some (dv_name o1)"
| "obj_name (Configure o1 _) = Some (dv_name o1)"
| "obj_name (Prepare o1 _ _) = Some (dv_name o1)"
| "obj_name (RegisterPausable o1) = Some (dv_name o1)"
| "obj_name (UnregisterPausable o1) = Some (dv_name o1)"
| "obj_name _ = None"

fun document_label :: "Document \<Rightarrow> string" where
  "document_label (DocStart _) = ''RunStart''"
| "document_label (DocDescriptor _) = ''EventDescriptor''"
| "document_label (DocEvent _) = ''Event''"
| "document_label (DocEventPage _) = ''EventPage''"
| "document_label (DocResource _) = ''Resource''"
| "document_label (DocDatum _) = ''Datum''"
| "document_label (DocDatumPage _) = ''DatumPage''"
| "document_label (DocStreamResource _) = ''StreamResource''"
| "document_label (DocStreamDatum _) = ''StreamDatum''"
| "document_label (DocStop _) = ''RunStop''"

record DynLocation =
  loc_setpoint :: f64
  loc_readback :: f64

datatype MsgResult =
    NoResult
  | OpenRunResult string
  | StatusResult group_id
  | WaitComplete bool
  | ReadingResult readings
  | LocationResult f64 f64
  | CloseRunResult string
  | InputResult string
  | EngineClass string
  | SubscriptionIdResult subscription_id

datatype PlanItem = Bare Msg | Respond Msg

fun item_msg :: "PlanItem \<Rightarrow> Msg" where
  "item_msg (Bare m) = m"
| "item_msg (Respond m) = m"

fun map_msg :: "(Msg \<Rightarrow> Msg) \<Rightarrow> PlanItem \<Rightarrow> PlanItem" where
  "map_msg f (Bare m) = Bare (f m)"
| "map_msg f (Respond m) = Respond (f m)"

end
