(* ===== verification/Control.thy ===== *)
theory Control
  imports Messages
begin

text \<open>
  The engine's control plane: \<open>RunControl\<close> and the request entry points of \<open>RunEngine\<close>
  (\<open>engine/run_engine.rs\<close>), each as one function on the record: the effect of a call that nothing interrupts. The
  source has several atomics and no lock around them, so calls of different threads can overlap; the theory
  \<open>Control_Threads\<close> has the same calls instruction by instruction, shows that those below are their
  uninterrupted runs, and proves what holds when they overlap.

  The cancellation token is the flag \<open>rc_cancelled\<close> of the current token (only the run
  loop renews the token, and never while a handler it started is parked on it). A
  \<open>Notify::notify_waiters\<close> is a counter: a waiter armed at count \<open>n\<close> is ready once the count
  differs from \<open>n\<close>. \<open>take_interrupt\<close> and \<open>ack_pause\<close> are the run loop's half, each under the token's lock.
\<close>

record Suspension =
  su_justification :: string
  su_pre_plan :: "nat option"
  su_post_plan :: "nat option"

record RunControl =
  rc_is_running :: bool
  rc_is_paused :: bool
  rc_permit :: nat
  rc_pause_notify :: nat
  rc_cancelled :: bool
  rc_pause_seq :: u64
  rc_pending_suspend :: "Suspension option"
  rc_holds :: nat
  rc_manual_pause :: bool
  rc_run_gen :: u64

definition ctl_new :: RunControl where
  "ctl_new = \<lparr> rc_is_running = False, rc_is_paused = False, rc_permit = 0, rc_pause_notify = 0,
     rc_cancelled = False, rc_pause_seq = 0, rc_pending_suspend = None, rc_holds = 0,
     rc_manual_pause = False, rc_run_gen = 0 \<rparr>"

definition reset_for_run :: "RunControl \<Rightarrow> RunControl" where
  "reset_for_run c =
     c\<lparr> rc_run_gen := rc_run_gen c + 1, rc_is_paused := False, rc_manual_pause := False,
        rc_holds := 0, rc_pending_suspend := None, rc_cancelled := False \<rparr>"

definition mark_paused :: "RunControl \<Rightarrow> RunControl" where
  "mark_paused c =
     c\<lparr> rc_is_paused := True, rc_pause_seq := rc_pause_seq c + 1, rc_cancelled := True,
        rc_pause_notify := Suc (rc_pause_notify c) \<rparr>"

definition wake :: "RunControl \<Rightarrow> RunControl" where
  "wake c = c\<lparr> rc_is_paused := False, rc_permit := Suc (rc_permit c) \<rparr>"

definition ctl_pause :: "RunControl \<Rightarrow> RunControl" where
  "ctl_pause c = mark_paused (c\<lparr> rc_manual_pause := True \<rparr>)"

definition ctl_resume :: "RunControl \<Rightarrow> RunControl" where
  "ctl_resume c = wake (c\<lparr> rc_manual_pause := False \<rparr>)"

text \<open>The generation a suspension was requested in is what its release carries.\<close>

definition ctl_request_suspend :: "Suspension \<Rightarrow> RunControl \<Rightarrow> u64 \<times> RunControl" where
  "ctl_request_suspend suspension c =
     (let c1 = c\<lparr> rc_pending_suspend := Some suspension, rc_holds := Suc (rc_holds c) \<rparr>
      in (rc_run_gen c1, mark_paused c1))"

definition release :: "u64 \<Rightarrow> RunControl \<Rightarrow> RunControl" where
  "release g c =
     (if g \<noteq> rc_run_gen c then c
      else
        let prior = rc_holds c; c1 = c\<lparr> rc_holds := prior - 1 \<rparr>
        in if prior \<le> 1 \<and> \<not> rc_manual_pause c1 then wake c1 else c1)"

section \<open>The engine's request flags\<close>

record control =
  ct_ctl :: RunControl
  ct_deferred_pause :: bool
  ct_is_aborting :: bool
  ct_is_halting :: bool
  ct_is_stopping :: bool
  ct_interrupt_seq :: u64
  ct_interrupt_reason :: string
  ct_sigint_count :: "8 word"
  ct_signal_installed :: bool
  ct_watcher_alive :: bool

definition control_new :: control where
  "control_new = \<lparr> ct_ctl = ctl_new, ct_deferred_pause = False, ct_is_aborting = False,
     ct_is_halting = False, ct_is_stopping = False, ct_interrupt_seq = 0,
     ct_interrupt_reason = '''', ct_sigint_count = 0, ct_signal_installed = False,
     ct_watcher_alive = False \<rparr>"

definition upd_ctl :: "(RunControl \<Rightarrow> RunControl) \<Rightarrow> control \<Rightarrow> control" where
  "upd_ctl f c = c\<lparr> ct_ctl := f (ct_ctl c) \<rparr>"

definition pause :: "bool \<Rightarrow> control \<Rightarrow> control" where
  "pause deferred c = (if deferred then c\<lparr> ct_deferred_pause := True \<rparr> else upd_ctl ctl_pause c)"

definition request_pause :: "bool \<Rightarrow> control \<Rightarrow> control" where
  "request_pause deferred c = pause deferred c"

definition request_suspend :: "string \<Rightarrow> control \<Rightarrow> control" where
  "request_suspend reason c = pause False c"

definition resume :: "control \<Rightarrow> control" where
  "resume c = upd_ctl ctl_resume c"

definition suspend_until_with_plans ::
  "string option \<Rightarrow> nat option \<Rightarrow> nat option \<Rightarrow> control \<Rightarrow> u64 \<times> control" where
  "suspend_until_with_plans justification pre_plan post_plan c =
     (let (g, ctl) = ctl_request_suspend
            \<lparr> su_justification = (case justification of None \<Rightarrow> ''suspended'' | Some j \<Rightarrow> j),
              su_pre_plan = pre_plan, su_post_plan = post_plan \<rparr> (ct_ctl c)
      in (g, c\<lparr> ct_ctl := ctl \<rparr>))"

definition request_interrupt :: "control \<Rightarrow> control" where
  "request_interrupt c =
     (let c1 = c\<lparr> ct_interrupt_seq := ct_interrupt_seq c + 1,
                 ct_ctl := (ct_ctl c)\<lparr> rc_cancelled := True \<rparr> \<rparr>
      in upd_ctl wake c1)"

definition abort :: "string \<Rightarrow> control \<Rightarrow> control" where
  "abort reason c =
     request_interrupt (c\<lparr> ct_interrupt_reason := reason, ct_is_aborting := True,
                           ct_is_stopping := False \<rparr>)"

definition halt :: "string \<Rightarrow> control \<Rightarrow> control" where
  "halt reason c =
     request_interrupt (c\<lparr> ct_interrupt_reason := reason, ct_is_halting := True,
                           ct_is_aborting := True \<rparr>)"

definition stop :: "control \<Rightarrow> control" where
  "stop c = request_interrupt (c\<lparr> ct_is_stopping := True, ct_is_aborting := True \<rparr>)"

definition stop_reason :: "control \<Rightarrow> string option" where
  "stop_reason c = (if ct_interrupt_reason c = '''' then None else Some (ct_interrupt_reason c))"

datatype EngineRunState = Idle | Running | Paused | Aborting | Halting

definition run_state :: "control \<Rightarrow> EngineRunState" where
  "run_state c =
     (if ct_is_halting c then Halting
      else if ct_is_aborting c then Aborting
      else if rc_is_paused (ct_ctl c) then Paused
      else if rc_is_running (ct_ctl c) then Running
      else Idle)"

definition install_signal_handler :: "control \<Rightarrow> control" where
  "install_signal_handler c =
     (if ct_signal_installed c then c
      else c\<lparr> ct_signal_installed := True, ct_watcher_alive := True \<rparr>)"

text \<open>One ctrl-c, seen by the watcher task if it is still running.\<close>

definition sigint :: "control \<Rightarrow> control" where
  "sigint c =
     (if \<not> ct_watcher_alive c then c
      else
        let n = ct_sigint_count c + 1; c1 = c\<lparr> ct_sigint_count := n \<rparr>
        in if n = 1 then pause False c1
           else if n = 2 then abort ''user abort'' c1
           else (halt ''user halt'' c1)\<lparr> ct_watcher_alive := False \<rparr>)"

section \<open>The run loop's half\<close>

datatype InterruptRequest = HaltRequest | ThrowRequest Interrupt

definition take_interrupt :: "u64 \<Rightarrow> control \<Rightarrow> InterruptRequest option \<times> u64 \<times> control" where
  "take_interrupt thrown_seq c =
     (if ct_interrupt_seq c = thrown_seq then (None, thrown_seq, c)
      else (Some (if ct_is_halting c then HaltRequest
                  else if ct_is_stopping c then ThrowRequest IStop
                  else ThrowRequest IAbort),
            ct_interrupt_seq c, upd_ctl (\<lambda>k. k\<lparr> rc_cancelled := False \<rparr>) c))"

definition interrupt_pending :: "u64 \<Rightarrow> control \<Rightarrow> bool" where
  "interrupt_pending thrown_seq c = (ct_interrupt_seq c \<noteq> thrown_seq)"

definition pause_pending :: "u64 \<Rightarrow> control \<Rightarrow> bool" where
  "pause_pending pause_seen c = (rc_pause_seq (ct_ctl c) \<noteq> pause_seen)"

definition ack_pause :: "u64 \<Rightarrow> control \<Rightarrow> u64 \<times> control" where
  "ack_pause pause_seen c =
     (if rc_pause_seq (ct_ctl c) \<noteq> pause_seen
      then (rc_pause_seq (ct_ctl c), upd_ctl (\<lambda>k. k\<lparr> rc_cancelled := False \<rparr>) c)
      else (pause_seen, c))"

text \<open>The claim of \<open>run_async\<close> and its reset of everything a previous run left behind; the
  result carries the loop's starting \<open>thrown_seq\<close> and \<open>pause_seen\<close>.\<close>

definition claim_run :: "control \<Rightarrow> control outcome" where
  "claim_run c =
     (if rc_is_running (ct_ctl c) then Err (State ''a plan is already running on this RunEngine'')
      else Ok (upd_ctl (\<lambda>k. k\<lparr> rc_is_running := True \<rparr>) c))"

definition begin_run :: "control \<Rightarrow> u64 \<times> u64 \<times> control" where
  "begin_run c =
     (let c1 = c\<lparr> ct_is_aborting := False, ct_is_halting := False, ct_is_stopping := False \<rparr>;
          thrown_seq = ct_interrupt_seq c1;
          c2 = upd_ctl reset_for_run (c1\<lparr> ct_interrupt_reason := '''' \<rparr>);
          pause_seen = rc_pause_seq (ct_ctl c2)
      in (thrown_seq, pause_seen, c2\<lparr> ct_deferred_pause := False, ct_sigint_count := 0 \<rparr>))"

definition end_run :: "control \<Rightarrow> control" where
  "end_run c = upd_ctl (\<lambda>k. k\<lparr> rc_is_running := False \<rparr>) c"

lemmas ctl_defs = reset_for_run_def mark_paused_def wake_def ctl_pause_def ctl_resume_def
  ctl_request_suspend_def release_def upd_ctl_def Let_def
lemmas request_defs = pause_def resume_def suspend_until_with_plans_def request_interrupt_def
  abort_def halt_def stop_def

section \<open>Pauses and suspensions\<close>

lemma release_twice_gen [simp]: "rc_run_gen (release g c) = rc_run_gen c"
  "rc_manual_pause (release g c) = rc_manual_pause c"
  by (simp_all add: ctl_defs)

lemma release_holds: "g = rc_run_gen c \<Longrightarrow> rc_holds (release g c) = rc_holds c - 1"
  "g = rc_run_gen c \<Longrightarrow> rc_is_paused (release g c) = (rc_is_paused c \<and> (1 < rc_holds c \<or> rc_manual_pause c))"
  by (auto simp: ctl_defs)

lemma releases:
  assumes "g = rc_run_gen c"
  shows "rc_run_gen ((release g ^^ k) c) = g" and "rc_manual_pause ((release g ^^ k) c) = rc_manual_pause c"
    and "rc_holds ((release g ^^ k) c) = rc_holds c - k"
    and "rc_is_paused ((release g ^^ k) c) = (rc_is_paused c \<and> (k = 0 \<or> k < rc_holds c \<or> rc_manual_pause c))"
  using assms by (induction k) (auto simp: release_holds)

text \<open>Requests that are neither a resume nor an interrupt.\<close>

datatype hold_req = HPause bool | HSuspend "string option" "nat option" "nat option" | HRelease u64

fun apply_hold :: "hold_req \<Rightarrow> control \<Rightarrow> control" where
  "apply_hold (HPause deferred) c = pause deferred c"
| "apply_hold (HSuspend j pre post) c = snd (suspend_until_with_plans j pre post c)"
| "apply_hold (HRelease g) c = upd_ctl (release g) c"

section \<open>Interrupts\<close>

datatype interrupt_req = RAbort string | RHalt string | RStop

fun apply_interrupt :: "interrupt_req \<Rightarrow> control \<Rightarrow> control" where
  "apply_interrupt (RAbort r) c = abort r c"
| "apply_interrupt (RHalt r) c = halt r c"
| "apply_interrupt RStop c = stop c"

fun is_halt :: "interrupt_req \<Rightarrow> bool" where
  "is_halt (RHalt r) = True"
| "is_halt _ = False"

lemma manual_hold_kept:
  "rc_manual_pause (ct_ctl c) \<Longrightarrow> rc_is_paused (ct_ctl c) \<Longrightarrow>
   rc_manual_pause (ct_ctl (fold apply_hold hs c)) \<and> rc_is_paused (ct_ctl (fold apply_hold hs c))"
proof (induction hs arbitrary: c)
  case (Cons h hs)
  then show ?case by (cases h) (auto simp: request_defs ctl_defs)
qed simp

lemma interrupt_wakes: "\<not> rc_is_paused (ct_ctl (apply_interrupt i c))"
  by (cases i) (simp_all add: request_defs ctl_defs)

text \<open>C38. The user's pause outlives the interrupt that cancelled it. Calls made one after the other: a \<open>pause\<close>
  followed by an \<open>abort\<close>, \<open>halt\<close> or \<open>stop\<close> wakes the engine but leaves \<open>manual_pause\<close> set, so when no other
  suspension is held, a suspension requested while the plan's cleanup runs is not lifted by its own release: no
  hold remains, and no further pause, suspension or release wakes the engine, only a \<open>resume\<close> or another
  interrupt does.\<close>

theorem pause_abort_suspend_never_released:
  assumes "rc_holds (ct_ctl c) = 0"
    and "suspend_until_with_plans j pre post (apply_interrupt i (pause False c)) = (g, c1)"
    and "c2 = upd_ctl (release g) c1"
  shows "\<not> rc_is_paused (ct_ctl (apply_interrupt i (pause False c)))
       \<and> rc_holds (ct_ctl c2) = 0
       \<and> (\<forall>hs. rc_is_paused (ct_ctl (fold apply_hold hs c2)))
       \<and> \<not> rc_is_paused (ct_ctl (resume c2)) \<and> (\<forall>i2. \<not> rc_is_paused (ct_ctl (apply_interrupt i2 c2)))"
proof -
  let ?p = "suspend_until_with_plans j pre post (apply_interrupt i (pause False c))"
  have p: "g = fst ?p" "c1 = snd ?p" using assms(2) by simp_all
  have "rc_holds (ct_ctl c2) = 0 \<and> rc_is_paused (ct_ctl c2) \<and> rc_manual_pause (ct_ctl c2)"
    using assms(1) unfolding assms(3) p by (cases i) (simp_all add: request_defs ctl_defs)
  then show ?thesis
    using manual_hold_kept [of c2] interrupt_wakes by (simp add: resume_def ctl_defs)
qed

theorem pause_abort_suspend_never_released_witness:
  "rc_is_paused (ct_ctl (fold apply_hold [HPause False, HRelease 0] (upd_ctl (release 0)
     (snd (suspend_until_with_plans None None None (apply_interrupt (RAbort ''r'') (pause False control_new)))))))"
  using pause_abort_suspend_never_released [of control_new None None None "RAbort ''r''" 0
      "snd (suspend_until_with_plans None None None (apply_interrupt (RAbort ''r'') (pause False control_new)))", OF _ _ refl]
  by (simp add: control_new_def ctl_new_def request_defs ctl_defs)

text \<open>What the requests amount to: a halt anywhere wins; else the last request decides.\<close>

definition interrupt_spec :: "interrupt_req list \<Rightarrow> InterruptRequest option" where
  "interrupt_spec rs =
     (if rs = [] then None
      else if \<exists>r\<in>set rs. is_halt r then Some HaltRequest
      else if last rs = RStop then Some (ThrowRequest IStop)
      else Some (ThrowRequest IAbort))"

lemma interrupt_flags:
  "ct_is_halting (fold apply_interrupt rs c) = (ct_is_halting c \<or> (\<exists>r\<in>set rs. is_halt r))"
  "ct_interrupt_seq (fold apply_interrupt rs c) = ct_interrupt_seq c + of_nat (length rs)"
  "(\<forall>r\<in>set rs. \<not> is_halt r) \<Longrightarrow>
   ct_is_stopping (fold apply_interrupt rs c) = (if rs = [] then ct_is_stopping c else last rs = RStop)"
proof (induction rs rule: rev_induct)
  case (snoc r rs)
  { case 1 show ?case using snoc.IH(1) by (cases r) (simp_all add: request_defs ctl_defs) }
  { case 2 show ?case using snoc.IH(2) by (cases r) (simp_all add: request_defs ctl_defs) }
  { case 3 then show ?case by (cases r) (simp_all add: request_defs ctl_defs) }
qed simp_all

text \<open>What the loop throws for the interrupts of a run: nothing when none was requested since
  the run began; a halt if any request was a halt; else stop or abort, whichever was requested
  last. In particular a later \<open>stop\<close> turns an \<open>abort\<close> into the exit status of a stop.\<close>

theorem interrupt_precedence:
  assumes "length rs < 2 ^ 64" and "begin_run c = (thrown_seq, pause_seen, c')"
  shows "fst (take_interrupt thrown_seq (fold apply_interrupt rs c')) = interrupt_spec rs"
proof -
  have c': "ct_interrupt_seq c' = thrown_seq" "\<not> ct_is_halting c'" "\<not> ct_is_stopping c'"
    using assms(2) by (auto simp: begin_run_def upd_ctl_def Let_def)
  have seq: "ct_interrupt_seq (fold apply_interrupt rs c') = thrown_seq \<longleftrightarrow> rs = []"
    using assms(1) by (simp add: interrupt_flags(2) c' word_of_nat_eq_0_iff dvd_def) auto
  show ?thesis
  proof (cases "\<exists>r\<in>set rs. is_halt r")
    case True
    then show ?thesis using seq by (auto simp: take_interrupt_def interrupt_spec_def interrupt_flags(1))
  next
    case False
    then show ?thesis
      using seq c' interrupt_flags(1) [of rs c'] interrupt_flags(3) [of rs c']
      by (auto simp: take_interrupt_def interrupt_spec_def)
  qed
qed

theorem interrupt_precedence_witness:
  "fst (take_interrupt 0 (fold apply_interrupt [RAbort ''beam lost'', RStop] (snd (snd (begin_run control_new)))))
     = Some (ThrowRequest IStop)"
  using interrupt_precedence [of "[RAbort ''beam lost'', RStop]" control_new 0 0
      "snd (snd (begin_run control_new))"]
  by (simp add: begin_run_def control_new_def ctl_new_def ctl_defs interrupt_spec_def)

text \<open>A \<open>stop\<close> downgrades an \<open>abort\<close> that the loop has not acted on: the run the user asked to
  abort closes with exit status \<open>success\<close>.\<close>

theorem stop_downgrades_abort:
  assumes "ct_interrupt_seq c + 2 \<noteq> thrown_seq" and "\<not> ct_is_halting c"
  shows "\<exists>kind. fst (take_interrupt thrown_seq (stop (abort reason c))) = Some (ThrowRequest kind)
           \<and> interrupt_exit_status kind = ''success''"
  using assms by (auto simp: take_interrupt_def request_defs ctl_defs add.assoc)

theorem stop_downgrades_abort_witness:
  "fst (take_interrupt 0 (stop (abort ''x'' control_new))) \<noteq> Some (ThrowRequest IAbort)"
  using stop_downgrades_abort [of control_new 0 "''x''"] by (auto simp: control_new_def)

text \<open>The three taps: from a fresh run, the first ctrl-c pauses, the second aborts, the third
  halts. After the third the watcher is gone: no later ctrl-c has any effect, not in a new run
  (\<open>begin_run\<close> resets the counter only) and not after installing the handler again.\<close>

theorem sigint_three_taps:
  assumes "ct_watcher_alive c" and "ct_signal_installed c" and "begin_run c = (ts, ps, c0)"
  shows "rc_is_paused (ct_ctl (sigint c0)) \<and> rc_manual_pause (ct_ctl (sigint c0))
    \<and> fst (take_interrupt ts (sigint (sigint c0))) = Some (ThrowRequest IAbort)
    \<and> fst (take_interrupt ts (sigint (sigint (sigint c0)))) = Some HaltRequest
    \<and> (let c3 = install_signal_handler (snd (snd (begin_run (sigint (sigint (sigint c0))))))
       in sigint c3 = c3)"
proof -
  have c0: "ct_sigint_count c0 = 0" "ct_watcher_alive c0" "ct_signal_installed c0" "\<not> ct_is_halting c0"
    "ct_interrupt_seq c0 = ts"
    using assms by (auto simp: begin_run_def upd_ctl_def Let_def)
  let ?c1 = "pause False (c0\<lparr> ct_sigint_count := 1 \<rparr>)"
  let ?c2 = "abort ''user abort'' (?c1\<lparr> ct_sigint_count := 2 \<rparr>)"
  let ?c3 = "(halt ''user halt'' (?c2\<lparr> ct_sigint_count := 3 \<rparr>))\<lparr> ct_watcher_alive := False \<rparr>"
  have one: "sigint c0 = ?c1"
    using c0 by (simp add: sigint_def Let_def)
  have two: "sigint ?c1 = ?c2"
    using c0 by (simp add: sigint_def pause_def upd_ctl_def Let_def)
  have three: "sigint ?c2 = ?c3"
    using c0 by (simp add: sigint_def pause_def abort_def request_interrupt_def upd_ctl_def Let_def)
  have "rc_is_paused (ct_ctl (sigint c0)) \<and> rc_manual_pause (ct_ctl (sigint c0))"
    unfolding one by (simp add: request_defs ctl_defs)
  moreover have "fst (take_interrupt ts (sigint (sigint c0))) = Some (ThrowRequest IAbort)"
    using c0 unfolding one two by (simp add: take_interrupt_def request_defs ctl_defs)
  moreover have "fst (take_interrupt ts (sigint (sigint (sigint c0)))) = Some HaltRequest"
    using c0 unfolding one two three by (simp add: take_interrupt_def request_defs ctl_defs add.assoc)
  moreover have "ct_signal_installed (sigint (sigint (sigint c0)))" "\<not> ct_watcher_alive (sigint (sigint (sigint c0)))"
    using c0 unfolding one two three by (simp_all add: request_defs ctl_defs)
  then have "let c3 = install_signal_handler (snd (snd (begin_run (sigint (sigint (sigint c0)))))) in sigint c3 = c3"
    by (simp add: install_signal_handler_def begin_run_def sigint_def upd_ctl_def Let_def)
  ultimately show ?thesis by blast
qed

theorem sigint_three_taps_witness:
  "rc_is_paused (ct_ctl (sigint (snd (snd (begin_run (install_signal_handler control_new))))))"
  using sigint_three_taps [of "install_signal_handler control_new" 0 0
      "snd (snd (begin_run (install_signal_handler control_new)))"]
  by (simp add: begin_run_def install_signal_handler_def control_new_def ctl_new_def ctl_defs)

text \<open>What \<open>state()\<close> reports. A run that was aborted, halted or stopped keeps being reported
  as \<open>Aborting\<close> or \<open>Halting\<close> after it ended, until the next run begins: the engine never reports
  \<open>Idle\<close> again before that, although nothing is running. A run that was not interrupted ends
  \<open>Idle\<close>, and beginning a run always reports \<open>Running\<close>.\<close>

theorem run_state_after_run:
  assumes "claim_run c = Ok c1" and "begin_run c1 = (ts, ps, c2)"
  shows "run_state c2 = Running \<and> run_state (end_run c2) = Idle
    \<and> (rs \<noteq> [] \<longrightarrow> run_state (end_run (fold apply_interrupt rs c2)) =
          (if \<exists>r\<in>set rs. is_halt r then Halting else Aborting)
        \<and> \<not> rc_is_running (ct_ctl (end_run (fold apply_interrupt rs c2))))"
proof -
  have aborting: "ct_is_aborting (fold apply_interrupt rs c) = (ct_is_aborting c \<or> rs \<noteq> [])" for c
  proof (induction rs rule: rev_induct)
    case (snoc r rs)
    then show ?case by (cases r) (simp_all add: request_defs ctl_defs)
  qed simp
  have c2: "\<not> ct_is_halting c2" "\<not> ct_is_aborting c2" "\<not> rc_is_paused (ct_ctl c2)" "rc_is_running (ct_ctl c2)"
    using assms by (auto simp: begin_run_def claim_run_def ctl_defs split: if_splits)
  then show ?thesis
    using interrupt_flags(1) [of rs c2] aborting [of c2]
    by (auto simp: run_state_def end_run_def upd_ctl_def)
qed

theorem run_state_after_run_witness:
  "run_state (end_run (abort ''r'' (snd (snd (begin_run (upd_ctl (\<lambda>k. k\<lparr> rc_is_running := True \<rparr>) control_new))))))
     = Aborting"
  using run_state_after_run [of control_new "upd_ctl (\<lambda>k. k\<lparr> rc_is_running := True \<rparr>) control_new" 0 0
      "snd (snd (begin_run (upd_ctl (\<lambda>k. k\<lparr> rc_is_running := True \<rparr>) control_new)))" "[RAbort ''r'']"]
  by (simp add: claim_run_def begin_run_def control_new_def ctl_new_def ctl_defs)

end
