(* ===== verification/Assets.thy ===== *)
theory Assets
  imports Bundler
begin

text \<open>
  \<open>pack_external_assets\<close> (\<open>engine/run_engine.rs\<close>): the validation and stamping of one drain of
  stream-asset documents. The documents are a slice mutated in place; the model returns the new
  slice with the width. The resource registry is mutated as the loop goes and keeps its entries
  when a later document is rejected, so it is returned next to the outcome.
\<close>

definition saturating_sub :: "u64 \<Rightarrow> u64 \<Rightarrow> u64" where
  "saturating_sub a b = (if a < b then 0 else a - b)"

definition range_width :: "StreamRange \<Rightarrow> u64" where
  "range_width r = saturating_sub (range_stop r) (range_start r)"

type_synonym registry = "(string, string) hmap"

text \<open>One document: the new document, the width so far, the data keys received so far.\<close>

definition pack_doc ::
  "string \<Rightarrow> u64 \<Rightarrow> string list \<Rightarrow> Document \<Rightarrow> u64 option \<Rightarrow> string list \<Rightarrow> registry
   \<Rightarrow> (Document \<times> u64 option \<times> string list) outcome \<times> registry" where
  "pack_doc run_start next_seq ext doc width received reg =
     (case doc of
        DocStreamResource r \<Rightarrow>
          (let r1 = (if sr_run_start r = None then r\<lparr> sr_run_start := Some run_start \<rparr> else r)
           in if hmem (sr_uid r1) reg
              then (Err (Plan (''Received `stream_resource` twice: '' @ sr_uid r1)), reg)
              else if sr_data_key r1 \<notin> set ext
              then (Err (Plan (''Received a `stream_resource` with an unknown data_key: '' @ sr_data_key r1)), reg)
              else (Ok (DocStreamResource r1, width, received), hput (sr_uid r1) (sr_data_key r1) reg))
      | DocStreamDatum d \<Rightarrow>
          if range_start (sd_seq_nums d) \<noteq> 0 \<or> range_stop (sd_seq_nums d) \<noteq> 0
          then (Err (Plan (''StreamDatum arrived with pre-filled seq_nums: '' @ sd_uid d)), reg)
          else
            (case hget reg (sd_stream_resource d) of
               None \<Rightarrow> (Err (Plan (''Received a `stream_datum` referring to an unknown stream resource: '' @ sd_stream_resource d)), reg)
             | Some data_key \<Rightarrow>
                 (let received1 = List.insert data_key received;
                      w = range_width (sd_indices d);
                      stamped = DocStreamDatum (d\<lparr> sd_seq_nums := \<lparr> range_start = next_seq, range_stop = next_seq + w \<rparr> \<rparr>)
                  in case width of
                       None \<Rightarrow> (Ok (stamped, Some w, received1), reg)
                     | Some prev \<Rightarrow>
                         if prev \<noteq> w
                         then (Err (Plan (''StreamDatum spans a different number of indices: '' @ sd_uid d)), reg)
                         else (Ok (stamped, width, received1), reg)))
      | _ \<Rightarrow> (Ok (doc, width, received), reg))"

fun pack_docs ::
  "string \<Rightarrow> u64 \<Rightarrow> string list \<Rightarrow> Document list \<Rightarrow> u64 option \<Rightarrow> string list \<Rightarrow> registry
   \<Rightarrow> (Document list \<times> u64 option \<times> string list) outcome \<times> registry" where
  "pack_docs run_start next_seq ext [] width received reg = (Ok ([], width, received), reg)"
| "pack_docs run_start next_seq ext (doc # docs) width received reg =
     (case pack_doc run_start next_seq ext doc width received reg of
        (Ok (doc1, width1, received1), reg1) \<Rightarrow>
          (case pack_docs run_start next_seq ext docs width1 received1 reg1 of
             (Ok (docs2, width2, received2), reg2) \<Rightarrow> (Ok (doc1 # docs2, width2, received2), reg2)
           | (Err e, reg2) \<Rightarrow> (Err e, reg2)
           | (Panic p, reg2) \<Rightarrow> (Panic p, reg2)
           | (Hang, reg2) \<Rightarrow> (Hang, reg2))
      | (Err e, reg1) \<Rightarrow> (Err e, reg1)
      | (Panic p, reg1) \<Rightarrow> (Panic p, reg1)
      | (Hang, reg1) \<Rightarrow> (Hang, reg1))"

definition pack_external_assets ::
  "Document list \<Rightarrow> string \<Rightarrow> u64 \<Rightarrow> string list \<Rightarrow> registry \<Rightarrow> (Document list \<times> u64) outcome \<times> registry" where
  "pack_external_assets docs run_start next_seq ext reg =
     (case pack_docs run_start next_seq ext docs None [] reg of
        (Ok (docs1, width, received), reg1) \<Rightarrow>
          if received \<noteq> [] \<and> (length ext \<noteq> length received \<or> \<not> (\<forall>k\<in>set ext. k \<in> set received))
          then (Err (Plan ''every external data key must receive a `stream_datum` in the same drain''), reg1)
          else (Ok (docs1, case width of None \<Rightarrow> 0 | Some w \<Rightarrow> w), reg1)
      | (Err e, reg1) \<Rightarrow> (Err e, reg1)
      | (Panic p, reg1) \<Rightarrow> (Panic p, reg1)
      | (Hang, reg1) \<Rightarrow> (Hang, reg1))"

section \<open>What a successful drain is\<close>

text \<open>The stamp a drain of width \<open>w\<close> puts on each document.\<close>

fun stamp :: "string \<Rightarrow> u64 \<Rightarrow> u64 \<Rightarrow> Document \<Rightarrow> Document" where
  "stamp run_start next_seq w (DocStreamResource r) =
     DocStreamResource (r\<lparr> sr_run_start := Some (case sr_run_start r of None \<Rightarrow> run_start | Some s \<Rightarrow> s) \<rparr>)"
| "stamp run_start next_seq w (DocStreamDatum d) =
     DocStreamDatum (d\<lparr> sd_seq_nums := \<lparr> range_start = next_seq, range_stop = next_seq + w \<rparr> \<rparr>)"
| "stamp run_start next_seq w doc = doc"

definition resources :: "Document list \<Rightarrow> StreamResource list" where
  "resources docs = filter_map (\<lambda>d. case d of DocStreamResource r \<Rightarrow> Some r | _ \<Rightarrow> None) docs"

definition datums :: "Document list \<Rightarrow> StreamDatum list" where
  "datums docs = filter_map (\<lambda>d. case d of DocStreamDatum r \<Rightarrow> Some r | _ \<Rightarrow> None) docs"

lemma resources_simps [simp]:
  "resources [] = []" "resources (DocStreamResource r # ds) = r # resources ds"
  "(\<forall>r. d \<noteq> DocStreamResource r) \<Longrightarrow> resources (d # ds) = resources ds"
  by (auto simp: resources_def split: Document.splits)

lemma datums_simps [simp]:
  "datums [] = []" "datums (DocStreamDatum r # ds) = r # datums ds"
  "(\<forall>r. d \<noteq> DocStreamDatum r) \<Longrightarrow> datums (d # ds) = datums ds"
  by (auto simp: datums_def split: Document.splits)

text \<open>The three ways one document is accepted.\<close>

lemma pack_doc_OkE:
  assumes "pack_doc rs n ext doc width rec reg = (Ok (doc1, width1, rec1), reg1)"
  obtains (res) r where "doc = DocStreamResource r" "hget reg (sr_uid r) = None" "sr_data_key r \<in> set ext"
      "width1 = width" "rec1 = rec" "reg1 = hput (sr_uid r) (sr_data_key r) reg"
      "\<forall>w. doc1 = stamp rs n w doc"
  | (dat) d k where "doc = DocStreamDatum d" "range_start (sd_seq_nums d) = 0"
      "range_stop (sd_seq_nums d) = 0" "hget reg (sd_stream_resource d) = Some k"
      "rec1 = List.insert k rec" "reg1 = reg" "width1 = Some (range_width (sd_indices d))"
      "width = None \<or> width = width1" "doc1 = stamp rs n (range_width (sd_indices d)) doc"
  | (other) "resources [doc] = []" "datums [doc] = []" "doc1 = doc" "width1 = width" "rec1 = rec"
      "reg1 = reg" "\<forall>w. doc1 = stamp rs n w doc"
proof (cases "(\<exists>r. doc = DocStreamResource r) \<or> (\<exists>d. doc = DocStreamDatum d)")
  case False
  then have "doc1 = doc \<and> width1 = width \<and> rec1 = rec \<and> reg1 = reg \<and> (\<forall>w. stamp rs n w doc = doc)"
    using assms by (cases doc) (auto simp: pack_doc_def)
  then show ?thesis by (intro other) (use False in auto)
next
  case True
  then show ?thesis
  proof
    assume "\<exists>r. doc = DocStreamResource r"
    then obtain r where r: "doc = DocStreamResource r" ..
    show ?thesis
      by (rule res [OF r], insert assms, cases "sr_run_start r")
        (auto simp: r pack_doc_def Let_def hmem_def split: if_splits)
  next
    assume "\<exists>d. doc = DocStreamDatum d"
    then obtain d where d: "doc = DocStreamDatum d" ..
    obtain k where k: "hget reg (sd_stream_resource d) = Some k"
      using assms by (auto simp: d pack_doc_def split: if_splits option.splits)
    show ?thesis
      by (rule dat [OF d _ _ k], insert assms k)
        (auto simp: d pack_doc_def Let_def split: if_splits option.splits)
  qed
qed

lemma pack_docs_ConsE:
  assumes "pack_docs rs n ext (doc # docs) width rec reg = (Ok (docs', width', rec'), reg')"
  obtains doc1 width1 rec1 reg1 docs2 where
    "pack_doc rs n ext doc width rec reg = (Ok (doc1, width1, rec1), reg1)"
    "pack_docs rs n ext docs width1 rec1 reg1 = (Ok (docs2, width', rec'), reg')"
    "docs' = doc1 # docs2"
  using assms by (auto split: prod.splits outcome.splits)

lemma resources_Cons: "resources (d # ds) = resources [d] @ resources ds"
  by (cases d) auto

lemma datums_Cons: "datums (d # ds) = datums [d] @ datums ds"
  by (cases d) auto

text \<open>The registry gains exactly the drain's resources, each new and of an external key.\<close>

lemma pack_docs_registry:
  "pack_docs rs n ext docs width rec reg = (Ok (docs', width', rec'), reg') \<Longrightarrow>
   (\<forall>u k. hget reg u = Some k \<longrightarrow> hget reg' u = Some k)
   \<and> (\<forall>r\<in>set (resources docs). sr_data_key r \<in> set ext \<and> hget reg (sr_uid r) = None
        \<and> hget reg' (sr_uid r) = Some (sr_data_key r))
   \<and> distinct (map sr_uid (resources docs))"
proof (induction docs arbitrary: width rec reg docs')
  case (Cons doc docs)
  from Cons.prems obtain doc1 width1 rec1 reg1 docs2 where
    one: "pack_doc rs n ext doc width rec reg = (Ok (doc1, width1, rec1), reg1)"
    and rest: "pack_docs rs n ext docs width1 rec1 reg1 = (Ok (docs2, width', rec'), reg')"
    by (rule pack_docs_ConsE)
  note ih = Cons.IH [OF rest]
  show ?case
    using one
  proof (cases rule: pack_doc_OkE)
    case (res r)
    have "\<forall>q\<in>set (resources docs). sr_uid q \<noteq> sr_uid r" using ih res(6) by auto
    moreover have "\<forall>u k. hget reg u = Some k \<longrightarrow> hget reg1 u = Some k" using res(2,6) by auto
    then have keep: "\<forall>u k. hget reg u = Some k \<longrightarrow> hget reg' u = Some k" using ih by blast
    moreover have "hget reg' (sr_uid r) = Some (sr_data_key r)" using ih res(6) by simp
    moreover have "\<forall>q\<in>set (resources docs). sr_data_key q \<in> set ext \<and> hget reg (sr_uid q) = None
        \<and> hget reg' (sr_uid q) = Some (sr_data_key q)"
      using ih res(6) by (auto split: if_splits)
    moreover have "distinct (map sr_uid (resources docs))" using ih by blast
    ultimately show ?thesis using res(1-3) by (intro conjI) auto
  next
    case (dat d k)
    then show ?thesis using ih by simp
  next
    case other
    then show ?thesis using ih by (simp add: resources_Cons [of doc docs])
  qed
qed simp

text \<open>All datums have the width of the drain, arrive unnumbered, and the slice is stamped.\<close>

lemma pack_docs_width:
  "pack_docs rs n ext docs width rec reg = (Ok (docs', width', rec'), reg') \<Longrightarrow>
   (\<forall>w. width = Some w \<longrightarrow> width' = Some w)
   \<and> (\<forall>d\<in>set (datums docs). range_start (sd_seq_nums d) = 0 \<and> range_stop (sd_seq_nums d) = 0
        \<and> width' = Some (range_width (sd_indices d)))
   \<and> (width' = None \<longleftrightarrow> width = None \<and> datums docs = [])"
proof (induction docs arbitrary: width rec reg docs')
  case (Cons doc docs)
  from Cons.prems obtain doc1 width1 rec1 reg1 docs2 where
    one: "pack_doc rs n ext doc width rec reg = (Ok (doc1, width1, rec1), reg1)"
    and rest: "pack_docs rs n ext docs width1 rec1 reg1 = (Ok (docs2, width', rec'), reg')"
    by (rule pack_docs_ConsE)
  note ih = Cons.IH [OF rest]
  show ?case
    using one
    by (cases rule: pack_doc_OkE) (use ih in \<open>auto simp: datums_Cons [of doc docs]\<close>)
qed simp

lemma pack_docs_stamp:
  "pack_docs rs n ext docs width rec reg = (Ok (docs', width', rec'), reg') \<Longrightarrow>
   docs' = map (stamp rs n (case width' of None \<Rightarrow> 0 | Some w \<Rightarrow> w)) docs"
proof (induction docs arbitrary: width rec reg docs')
  case (Cons doc docs)
  from Cons.prems obtain doc1 width1 rec1 reg1 docs2 where
    one: "pack_doc rs n ext doc width rec reg = (Ok (doc1, width1, rec1), reg1)"
    and rest: "pack_docs rs n ext docs width1 rec1 reg1 = (Ok (docs2, width', rec'), reg')"
    and docs': "docs' = doc1 # docs2"
    by (rule pack_docs_ConsE)
  have "doc1 = stamp rs n (case width' of None \<Rightarrow> 0 | Some w \<Rightarrow> w) doc"
    using one by (cases rule: pack_doc_OkE) (use pack_docs_width [OF rest] in auto)
  then show ?case using Cons.IH [OF rest] docs' by simp
qed simp

text \<open>The keys received are those of the datums' resources.\<close>

lemma pack_docs_received:
  "pack_docs rs n ext docs width rec reg = (Ok (docs', width', rec'), reg') \<Longrightarrow>
   (\<forall>d\<in>set (datums docs). \<exists>k\<in>set rec'. hget reg' (sd_stream_resource d) = Some k)
   \<and> set rec' = set rec \<union> {k. \<exists>d\<in>set (datums docs). hget reg' (sd_stream_resource d) = Some k}
   \<and> (distinct rec \<longrightarrow> distinct rec')"
proof (induction docs arbitrary: width rec reg docs')
  case (Cons doc docs)
  from Cons.prems obtain doc1 width1 rec1 reg1 docs2 where
    one: "pack_doc rs n ext doc width rec reg = (Ok (doc1, width1, rec1), reg1)"
    and rest: "pack_docs rs n ext docs width1 rec1 reg1 = (Ok (docs2, width', rec'), reg')"
    by (rule pack_docs_ConsE)
  note ih = Cons.IH [OF rest]
  show ?case
    using one
  proof (cases rule: pack_doc_OkE)
    case (res r)
    then show ?thesis using ih by auto
  next
    case (dat d k)
    have "hget reg' (sd_stream_resource d) = Some k" using pack_docs_registry [OF rest] dat by simp
    then show ?thesis using ih dat(1,5) by auto
  next
    case other
    then show ?thesis using ih by (auto simp: datums_Cons [of doc docs])
  qed
qed simp

text \<open>C26. A drain of stream assets that is accepted, for a descriptor whose external data keys are distinct. Every
  resource is new to the run and describes an external data key, is registered, and names the run unless its
  writer had already filled \<open>run_start\<close>, which is kept; all datums arrive unnumbered, span the same number of indices
  \<open>w\<close>, the width that is returned, refer to registered resources, and leave with the sequence numbers
  \<open>[next_seq, next_seq + w)\<close>; if there is any datum, every external data key received one. Other documents
  pass unchanged, and without datums \<open>w\<close> is 0.\<close>

theorem pack_external_assets_accepted:
  assumes "pack_external_assets docs run_start next_seq ext reg = (Ok (docs', w), reg')"
    and "distinct ext"
  shows "docs' = map (stamp run_start next_seq w) docs
    \<and> (\<forall>d\<in>set (datums docs). range_start (sd_seq_nums d) = 0 \<and> range_stop (sd_seq_nums d) = 0
          \<and> range_width (sd_indices d) = w \<and> hget reg' (sd_stream_resource d) \<noteq> None)
    \<and> (\<forall>r\<in>set (resources docs). sr_data_key r \<in> set ext \<and> hget reg (sr_uid r) = None
          \<and> hget reg' (sr_uid r) = Some (sr_data_key r))
    \<and> distinct (map sr_uid (resources docs))
    \<and> (datums docs \<noteq> [] \<longrightarrow>
          set ext = {k. \<exists>d\<in>set (datums docs). hget reg' (sd_stream_resource d) = Some k})
    \<and> (datums docs = [] \<longrightarrow> w = 0)"
proof -
  from assms(1) obtain width rec where
    run: "pack_docs run_start next_seq ext docs None [] reg = (Ok (docs', width, rec), reg')"
    and w: "w = (case width of None \<Rightarrow> 0 | Some w \<Rightarrow> w)"
    and all: "rec = [] \<or> (length ext = length rec \<and> set ext \<subseteq> set rec)"
    by (auto simp: pack_external_assets_def split: prod.splits outcome.splits if_splits)
  note facts = pack_docs_registry [OF run] pack_docs_width [OF run] pack_docs_stamp [OF run]
    pack_docs_received [OF run]
  have "set ext = set rec" if "rec \<noteq> []"
    using all that facts(4) assms(2) by (metis card_subset_eq distinct.simps(1) distinct_card List.finite_set)
  moreover have "rec \<noteq> []" if "datums docs \<noteq> []"
    using that facts(4) by (cases "datums docs") auto
  moreover have "set rec = {k. \<exists>d\<in>set (datums docs). hget reg' (sd_stream_resource d) = Some k}"
    using facts(4) by simp
  ultimately have cover: "datums docs \<noteq> [] \<longrightarrow>
      set ext = {k. \<exists>d\<in>set (datums docs). hget reg' (sd_stream_resource d) = Some k}" by metis
  have "\<forall>d\<in>set (datums docs). range_start (sd_seq_nums d) = 0 \<and> range_stop (sd_seq_nums d) = 0
      \<and> range_width (sd_indices d) = w \<and> hget reg' (sd_stream_resource d) \<noteq> None"
    using facts(2,4) w by fastforce
  moreover have "datums docs = [] \<longrightarrow> w = 0" using facts(2) w by auto
  moreover have "docs' = map (stamp run_start next_seq w) docs" using facts(3) w by simp
  ultimately show ?thesis using facts(1) cover by blast
qed

definition sample_resource :: StreamResource where
  "sample_resource = \<lparr> sr_uid = ''r1'', sr_data_key = ''img'', sr_mimetype = ''application/x-hdf5'',
     sr_uri = ''file://localhost/x.h5'', sr_parameters = [], sr_run_start = None \<rparr>"

definition sample_datum :: StreamDatum where
  "sample_datum = \<lparr> sd_uid = ''r1/0'', sd_stream_resource = ''r1'', sd_descriptor = ''d1'',
     sd_indices = \<lparr> range_start = 0, range_stop = 5 \<rparr>, sd_seq_nums = \<lparr> range_start = 0, range_stop = 0 \<rparr> \<rparr>"

lemma sample_drain:
  "pack_external_assets [DocStreamResource sample_resource, DocStreamDatum sample_datum] ''run'' 3 [''img''] []
     = (Ok (map (stamp ''run'' 3 5) [DocStreamResource sample_resource, DocStreamDatum sample_datum], 5),
        [(''r1'', ''img'')])"
  by (simp add: pack_external_assets_def pack_doc_def sample_resource_def sample_datum_def hmem_def
      range_width_def saturating_sub_def Let_def)

theorem pack_external_assets_accepted_witness:
  "range_width (sd_indices sample_datum) = 5 \<and> hget [(''r1'', ''img'')] ''r1'' \<noteq> None"
  using pack_external_assets_accepted [OF sample_drain]
  by (simp add: sample_datum_def)

end
