(* ===== verification/Engine.thy ===== *)
theory Engine
  imports Control Assets
begin

text \<open>
  The state of the \<open>RunEngine\<close> and its primitives (\<open>engine/run_engine.rs\<close>): the records
  \<open>RunSlot\<close> and \<open>engine\<close> (the fields of \<open>RunEngine\<close> and of its mutex-guarded \<open>EngineState\<close>),
  the monad of the handlers, and what happens at an await point.

  What is outside the engine is the record \<open>world\<close>: devices, parked waits, the clock, fresh
  UUIDs, user hooks and the requests other tasks make. Each entry is a function of the trace of
  everything the engine has done so far, so it may answer differently every time. An \<open>await\<close>
  records its effect and then applies the requests the world delivers at that point: control
  requests, and readings delivered to the live monitor pumps, which compose and emit events on
  their own. A document the engine composed is \<open>Emitted\<close>; one a device or the plan supplied is
  \<open>Forwarded\<close>. Traces are newest first.

  Two restrictions. The runtime has several threads (\<open>core/runtime.rs\<close>), so a request can in fact arrive between
  any two instructions of a handler; here it arrives at the await points, each request as a whole. The instruction-level
  interleavings of the requests with each other, with the entry of a run and with the loop's acknowledgements are the
  theory \<open>Control_Threads\<close>. And the delivery of a document to a sink returns: a sink that blocks for ever, and with it
  the engine, is not modelled.
\<close>

section \<open>Effects, plans and the world\<close>

datatype effect =
    Called string device
  | Emitted Document
  | Forwarded Document
  | Notified subscription_id Document
  | Hooked string "string option" "string option"
  | Polled
  | Parked nat

type_synonym sinks = "(sink_id, Thrown) hmap"

record view =
  vw_trace :: "effect list"
  vw_reply :: "MsgResult option"
  vw_sinks :: sinks

codatatype plan = PlanOf (plan_next: "view \<Rightarrow> (PlanItem \<times> sinks \<times> plan) option")

type_synonym status_id = nat

datatype request =
    QPause bool | QResume | QAbort string | QHalt string | QStop
  | QSuspend "string option" "nat option" "nat option" | QRelease u64 | QSigint
  | QReading "string option" string Reading

text \<open>How a parked wait ends, if the engine's token does not end it first.\<close>

datatype resolution = Resolved "unit outcome" | StatusFailed StatusError | TimedOut | Never

datatype park =
    ParkStatus status_id | ParkAll "status_id list" | ParkSleep duration | ParkFactories "nat list"
  | ParkPermit | ParkSuspenders "suspender_id list"

type_synonym md = "(string, json) hmap"

record world =
  w_requests :: "effect list \<Rightarrow> request list"
  w_park :: "effect list \<Rightarrow> park \<Rightarrow> request list \<times> resolution"
  w_uid :: "nat \<Rightarrow> string"
  w_now :: "effect list \<Rightarrow> f64"
  w_read :: "effect list \<Rightarrow> device \<Rightarrow> readings outcome"
  w_describe :: "effect list \<Rightarrow> device \<Rightarrow> (string, DataKey) hmap outcome"
  w_hint_fields :: "effect list \<Rightarrow> device \<Rightarrow> string list option"
  w_configurable :: "device \<Rightarrow> bool"
  w_read_configuration :: "effect list \<Rightarrow> device \<Rightarrow> readings outcome"
  w_describe_configuration :: "effect list \<Rightarrow> device \<Rightarrow> (string, DataKey) hmap outcome"
  w_unit_call :: "effect list \<Rightarrow> string \<Rightarrow> device \<Rightarrow> unit outcome"
  w_status_call :: "effect list \<Rightarrow> string \<Rightarrow> device \<Rightarrow> status_id"
  w_writes_assets :: "effect list \<Rightarrow> device \<Rightarrow> bool"
  w_asset_docs :: "effect list \<Rightarrow> device \<Rightarrow> string \<Rightarrow> Document list outcome"
  w_locate :: "effect list \<Rightarrow> device \<Rightarrow> DynLocation outcome"
  w_as_collectable :: "device \<Rightarrow> device option"
  w_describe_collect :: "effect list \<Rightarrow> device \<Rightarrow> (string, (string, DataKey) hmap) hmap outcome"
  w_stream_docs :: "effect list \<Rightarrow> device \<Rightarrow> string \<Rightarrow> Document list outcome"
  w_collect :: "effect list \<Rightarrow> device \<Rightarrow> (string \<times> (string, json) hmap \<times> (string, f64) hmap) list outcome"
  w_subscribe :: "effect list \<Rightarrow> device \<Rightarrow> string outcome"
  w_pending_readings :: "effect list \<Rightarrow> device \<Rightarrow> Reading list"
  w_input :: "effect list \<Rightarrow> string \<Rightarrow> string outcome"
  w_command :: "effect list \<Rightarrow> nat \<Rightarrow> nat \<Rightarrow> unit outcome"
  w_md_validator :: "effect list \<Rightarrow> md \<Rightarrow> unit outcome"
  w_md_normalizer :: "effect list \<Rightarrow> md \<Rightarrow> md outcome"
  w_scan_id_source :: "effect list \<Rightarrow> md \<Rightarrow> u64 outcome"
  w_preprocess :: "nat \<Rightarrow> plan \<Rightarrow> plan"
  w_suspend_plan :: "nat \<Rightarrow> plan"
  w_tripped :: "effect list \<Rightarrow> suspender_id \<Rightarrow> bool"
  w_error_text :: "BsrsError \<Rightarrow> string"

section \<open>State\<close>

record MonitorSpec =
  mon_obj :: device
  mon_stream :: string

record MonitorTask =
  mt_obj :: device
  mt_stream :: string
  mt_event_key :: string

record RunSlot =
  rn_bundler :: RunBundler
  rn_bundle_asset_objs :: "device list"
  rn_monitor_tasks :: "(string, MonitorTask) hmap"
  rn_monitored :: "(string, MonitorSpec) hmap"
  rn_uncollected :: "(string, device) hmap"

definition slot_of :: "RunBundler \<Rightarrow> RunSlot" where
  "slot_of bundler =
     \<lparr> rn_bundler = bundler, rn_bundle_asset_objs = [], rn_monitor_tasks = [], rn_monitored = [],
       rn_uncollected = [] \<rparr>"

type_synonym run_key = "string option"

record engine =
  en_world :: world
  en_trace :: "effect list"
  en_uids :: nat
  en_monitor_counter :: u64
  en_control :: control
  en_runs :: "(run_key, RunSlot) hmap"
  en_groups :: "(group_id, status_id list) hmap"
  en_staged :: "device list"
  en_movables :: "(string, device) hmap"
  en_flyables :: "(string, device) hmap"
  en_pausables :: "(string, device) hmap"
  en_temp_subscribers :: "subscription_id list"
  en_contingency :: "sink_id list"
  en_sinks :: sinks
  en_msg_cache :: "Msg list"
  en_replay_queue :: "Msg list"
  en_rewindable :: bool
  en_suspenders :: "(u64, suspender_id) hmap"
  en_md :: md
  en_scan_id :: u64
  en_subscribers :: "(subscription_id \<times> DocFilter \<times> callback_id) list"
  en_sub_counter :: u64
  en_suspender_count :: u64
  en_commands :: "(string, nat) hmap"
  en_md_validator :: bool
  en_md_normalizer :: bool
  en_scan_id_source :: bool
  en_preprocessors :: "nat list"
  en_before_plan :: bool
  en_after_plan :: bool
  en_msg_hook :: bool
  en_input_handler :: bool
  en_per_call_md :: md
  en_staged_temp_subs :: "subscription_id list"
  en_last_msg_result :: MsgResult
  en_record_interruptions :: bool
  en_checkpoint_hook :: bool

definition engine_new :: "world \<Rightarrow> engine" where
  "engine_new w =
     \<lparr> en_world = w, en_trace = [], en_uids = 0, en_monitor_counter = 0, en_control = control_new,
       en_runs = [], en_groups = [], en_staged = [], en_movables = [], en_flyables = [],
       en_pausables = [], en_temp_subscribers = [], en_contingency = [], en_sinks = [],
       en_msg_cache = [], en_replay_queue = [], en_rewindable = False, en_suspenders = [],
       en_md = [], en_scan_id = 0, en_subscribers = [], en_sub_counter = 0, en_suspender_count = 0,
       en_commands = [], en_md_validator = False, en_md_normalizer = False,
       en_scan_id_source = False, en_preprocessors = [], en_before_plan = False,
       en_after_plan = False, en_msg_hook = False, en_input_handler = False, en_per_call_md = [], en_staged_temp_subs = [],
       en_last_msg_result = NoResult, en_record_interruptions = False, en_checkpoint_hook = False \<rparr>"

definition bundler_of :: "engine \<Rightarrow> run_key \<Rightarrow> RunBundler option" where
  "bundler_of s run = map_option rn_bundler (hget (en_runs s) run)"

definition run_open :: "engine \<Rightarrow> run_key \<Rightarrow> bool" where
  "run_open s run = hmem run (en_runs s)"

definition any_run_open :: "engine \<Rightarrow> bool" where
  "any_run_open s = (en_runs s \<noteq> [])"

definition any_bundling :: "engine \<Rightarrow> bool" where
  "any_bundling s = list_ex (\<lambda>sl. is_bundling (rn_bundler sl)) (hvalues (en_runs s))"

definition put_slot :: "run_key \<Rightarrow> RunSlot \<Rightarrow> engine \<Rightarrow> engine" where
  "put_slot run sl s = s\<lparr> en_runs := hput run sl (en_runs s) \<rparr>"

text \<open>\<open>run_mut(..)\<close> with an update; nothing happens when the run is not open.\<close>

definition upd_slot :: "run_key \<Rightarrow> (RunSlot \<Rightarrow> RunSlot) \<Rightarrow> engine \<Rightarrow> engine" where
  "upd_slot run f s = (case hget (en_runs s) run of None \<Rightarrow> s | Some sl \<Rightarrow> put_slot run (f sl) s)"

definition upd_bundler :: "run_key \<Rightarrow> (RunBundler \<Rightarrow> RunBundler) \<Rightarrow> engine \<Rightarrow> engine" where
  "upd_bundler run f = upd_slot run (\<lambda>sl. sl\<lparr> rn_bundler := f (rn_bundler sl) \<rparr>)"

definition upd_all_bundlers :: "(RunBundler \<Rightarrow> RunBundler) \<Rightarrow> engine \<Rightarrow> engine" where
  "upd_all_bundlers f s =
     s\<lparr> en_runs := hmap_values (\<lambda>sl. sl\<lparr> rn_bundler := f (rn_bundler sl) \<rparr>) (en_runs s) \<rparr>"

definition upd_control :: "(control \<Rightarrow> control) \<Rightarrow> engine \<Rightarrow> engine" where
  "upd_control f s = s\<lparr> en_control := f (en_control s) \<rparr>"

definition push :: "effect \<Rightarrow> engine \<Rightarrow> engine" where
  "push e s = s\<lparr> en_trace := e # en_trace s \<rparr>"

section \<open>Emitting documents and applying requests\<close>

text \<open>\<open>dispatch_subscribers\<close>: every live subscriber whose filter matches, in order.\<close>

definition matched_subscribers :: "engine \<Rightarrow> Document \<Rightarrow> subscription_id list" where
  "matched_subscribers s doc = map fst (filter (\<lambda>(_, f, _). filter_matches f doc) (en_subscribers s))"

definition dispatch_subscribers :: "Document \<Rightarrow> engine \<Rightarrow> engine" where
  "dispatch_subscribers doc s = fold (\<lambda>i. push (Notified i doc)) (matched_subscribers s doc) s"

text \<open>The body of a monitor pump for one reading: compose on the run's shared bundle, emit.\<close>

definition pump_event :: "run_key \<Rightarrow> MonitorTask \<Rightarrow> Reading \<Rightarrow> engine \<Rightarrow> engine" where
  "pump_event run task reading s =
     (case hget (en_runs s) run of
        None \<Rightarrow> s
      | Some sl \<Rightarrow>
          (let (ev, bundle) =
                 bundle_event (bd_bundle (rn_bundler sl)) (mt_stream task)
                   [(mt_event_key task, rd_value reading)] [(mt_event_key task, rd_timestamp reading)]
                   (w_uid (en_world s) (en_uids s)) (w_now (en_world s) (en_trace s))
           in case ev of
                None \<Rightarrow> s
              | Some e \<Rightarrow>
                  dispatch_subscribers (DocEvent e)
                    (push (Emitted (DocEvent e))
                      (put_slot run (sl\<lparr> rn_bundler := (rn_bundler sl)\<lparr> bd_bundle := bundle \<rparr> \<rparr>)
                        (s\<lparr> en_uids := Suc (en_uids s) \<rparr>)))))"

definition deliver_reading :: "run_key \<Rightarrow> string \<Rightarrow> Reading \<Rightarrow> engine \<Rightarrow> engine" where
  "deliver_reading run name reading s =
     (case hget (en_runs s) run of
        None \<Rightarrow> s
      | Some sl \<Rightarrow>
          (case hget (rn_monitor_tasks sl) name of None \<Rightarrow> s | Some task \<Rightarrow> pump_event run task reading s))"

fun apply_request :: "request \<Rightarrow> engine \<Rightarrow> engine" where
  "apply_request (QPause deferred) s = upd_control (pause deferred) s"
| "apply_request QResume s = upd_control resume s"
| "apply_request (QAbort r) s = upd_control (abort r) s"
| "apply_request (QHalt r) s = upd_control (halt r) s"
| "apply_request QStop s = upd_control stop s"
| "apply_request (QSuspend j pre post) s = upd_control (\<lambda>c. snd (suspend_until_with_plans j pre post c)) s"
| "apply_request (QRelease g) s = upd_control (upd_ctl (release g)) s"
| "apply_request QSigint s = upd_control sigint s"
| "apply_request (QReading run name reading) s = deliver_reading run name reading s"

section \<open>The monad\<close>

type_synonym 'a eng = "engine \<Rightarrow> 'a outcome \<times> engine"

definition retE :: "'a \<Rightarrow> 'a eng" where
  "retE x = (\<lambda>s. (Ok x, s))"

definition failE :: "BsrsError \<Rightarrow> 'a eng" where
  "failE e = (\<lambda>s. (Err e, s))"

definition bindE :: "'a eng \<Rightarrow> ('a \<Rightarrow> 'b eng) \<Rightarrow> 'b eng" where
  "bindE m f = (\<lambda>s. case m s of
     (Ok x, s1) \<Rightarrow> f x s1
   | (Err e, s1) \<Rightarrow> (Err e, s1)
   | (Panic p, s1) \<Rightarrow> (Panic p, s1)
   | (Hang, s1) \<Rightarrow> (Hang, s1))"

definition seqE :: "'a eng \<Rightarrow> 'b eng \<Rightarrow> 'b eng" where
  "seqE m n = bindE m (\<lambda>_. n)"

definition getE :: "(engine \<Rightarrow> 'a) \<Rightarrow> 'a eng" where
  "getE f = (\<lambda>s. (Ok (f s), s))"

definition modE :: "(engine \<Rightarrow> engine) \<Rightarrow> unit eng" where
  "modE f = (\<lambda>s. (Ok (), f s))"

definition liftE :: "'a outcome \<Rightarrow> 'a eng" where
  "liftE r = (\<lambda>s. (r, s))"

definition guardE :: "(engine \<Rightarrow> bool) \<Rightarrow> BsrsError \<Rightarrow> unit eng" where
  "guardE P e = (\<lambda>s. if P s then (Ok (), s) else (Err e, s))"

text \<open>\<open>if let Err(e) = m { warn!(..) }\<close>\<close>

definition ignoreE :: "'a eng \<Rightarrow> unit eng" where
  "ignoreE m = (\<lambda>s. case m s of
     (Ok x, s1) \<Rightarrow> (Ok (), s1)
   | (Err e, s1) \<Rightarrow> (Ok (), s1)
   | (Panic p, s1) \<Rightarrow> (Panic p, s1)
   | (Hang, s1) \<Rightarrow> (Hang, s1))"

fun forE :: "'a list \<Rightarrow> ('a \<Rightarrow> unit eng) \<Rightarrow> unit eng" where
  "forE [] f = retE ()"
| "forE (x # xs) f = seqE (f x) (forE xs f)"

fun mapE :: "'a list \<Rightarrow> ('a \<Rightarrow> 'b eng) \<Rightarrow> 'b list eng" where
  "mapE [] f = retE []"
| "mapE (x # xs) f = bindE (f x) (\<lambda>y. bindE (mapE xs f) (\<lambda>ys. retE (y # ys)))"

text \<open>An await point: the effect, then the requests of other tasks.\<close>

definition awaitE :: "effect \<Rightarrow> unit eng" where
  "awaitE e = (\<lambda>s. let s1 = push e s in (Ok (), fold apply_request (w_requests (en_world s1) (en_trace s1)) s1))"

text \<open>A call of a device method.\<close>

definition callE :: "string \<Rightarrow> device \<Rightarrow> (world \<Rightarrow> effect list \<Rightarrow> 'a outcome) \<Rightarrow> 'a eng" where
  "callE m d resp = (\<lambda>s. let r = resp (en_world s) (Called m d # en_trace s)
                        in bindE (awaitE (Called m d)) (\<lambda>_. liftE r) s)"

definition fresh_uid :: "string eng" where
  "fresh_uid = (\<lambda>s. (Ok (w_uid (en_world s) (en_uids s)), s\<lparr> en_uids := Suc (en_uids s) \<rparr>))"

definition nowE :: "f64 eng" where
  "nowE = getE (\<lambda>s. w_now (en_world s) (en_trace s))"

text \<open>\<open>broadcast\<close>: the static sinks (awaited, their errors are logged; a delivery that never returns is not
  modelled), then the subscribers.\<close>

definition deliverE :: "effect \<Rightarrow> Document \<Rightarrow> unit eng" where
  "deliverE e doc = seqE (awaitE e) (modE (dispatch_subscribers doc))"

definition broadcast :: "Document \<Rightarrow> unit eng" where
  "broadcast doc = deliverE (Emitted doc) doc"

definition forward :: "Document \<Rightarrow> unit eng" where
  "forward doc = deliverE (Forwarded doc) doc"

text \<open>A handler parked on something raced against the engine's token: the requests that arrive while
  it is parked are applied; if they cancelled the token the wait ends with \<open>Cancelled\<close> unless the
  thing itself had resolved (both ready: the world decides by resolving or not).\<close>

definition parkE :: "park \<Rightarrow> (resolution \<Rightarrow> 'a outcome) \<Rightarrow> 'a eng" where
  "parkE p k = (\<lambda>s.
     let s1 = push (Parked 0) s;
         (rs, res) = w_park (en_world s1) (en_trace s1) p;
         s2 = fold apply_request rs s1
     in if res = Never
        then (if rc_cancelled (ct_ctl (en_control s2)) then Err Cancelled else Hang, s2)
        else (k res, s2))"

lemmas monad_defs = retE_def failE_def bindE_def seqE_def getE_def modE_def liftE_def guardE_def

end
