(* ===== verification/Handlers.thy ===== *)
theory Handlers
  imports Engine
begin

text \<open>
  The message handlers of the engine (\<open>RunEngine::handle\<close> and the operations it calls): one
  definition per message verb, with the guards, early returns and await points of the source, in
  its order; \<open>handle\<close> composes them. A handler that returns an error keeps the state changes it
  made before the error.
\<close>

section \<open>Configuration and descriptors\<close>

definition set_result :: "MsgResult \<Rightarrow> unit eng" where
  "set_result r = modE (\<lambda>s. s\<lparr> en_last_msg_result := r \<rparr>)"

text \<open>Both halves are awaited (\<open>join!\<close>) before the first error is looked at.\<close>

definition read_object_configuration :: "device \<Rightarrow> Configuration eng" where
  "read_object_configuration obj =
     bindE (callE ''read_configuration'' obj (\<lambda>w t. Ok (w_read_configuration w t obj))) (\<lambda>r1.
     bindE (callE ''describe_configuration'' obj (\<lambda>w t. Ok (w_describe_configuration w t obj))) (\<lambda>r2.
     bindE (liftE r1) (\<lambda>readings.
     bindE (liftE r2) (\<lambda>data_keys.
       retE \<lparr> cfg_data = event_data readings, cfg_data_keys = data_keys,
              cfg_timestamps = event_timestamps readings \<rparr>))))"

definition ensure_object_configuration :: "run_key \<Rightarrow> device \<Rightarrow> Configuration eng" where
  "ensure_object_configuration run obj =
     bindE (getE (\<lambda>s. case bundler_of s run of None \<Rightarrow> None
                      | Some b \<Rightarrow> cached_configuration b (dv_name obj))) (\<lambda>cached.
     case cached of
       Some c \<Rightarrow> retE c
     | None \<Rightarrow>
         bindE (getE (\<lambda>s. w_configurable (en_world s) obj)) (\<lambda>configurable.
         bindE (if configurable then read_object_configuration obj else retE default_configuration) (\<lambda>config.
         seqE (modE (upd_bundler run (\<lambda>b. cache_configuration b (dv_name obj) config)))
              (retE config))))"

definition stream_object :: "device \<Rightarrow> (string, DataKey) hmap \<Rightarrow> Configuration \<Rightarrow> StreamObject eng" where
  "stream_object obj data_keys config =
     getE (\<lambda>s. \<lparr> so_object = Some (dv_name obj), so_data_keys = data_keys,
                so_hint_fields = w_hint_fields (en_world s) (en_trace s) obj,
                so_configuration = config \<rparr>)"

text \<open>\<open>bundler.declare_stream(..)\<close> on the run's slot, minting the uid it may need.\<close>

definition declare_on :: "run_key \<Rightarrow> string \<Rightarrow> string \<Rightarrow> StreamObject list \<Rightarrow> EventDescriptor eng" where
  "declare_on run missing stream_name objs = (\<lambda>s.
     case hget (en_runs s) run of
       None \<Rightarrow> (Err (Plan missing), s)
     | Some sl \<Rightarrow>
         (let (d, b) = declare_stream (rn_bundler sl) stream_name objs
                         (w_uid (en_world s) (en_uids s)) (w_now (en_world s) (en_trace s))
          in (Ok d, put_slot run (sl\<lparr> rn_bundler := b \<rparr>) (s\<lparr> en_uids := Suc (en_uids s) \<rparr>))))"

text \<open>\<open>bundler.compose().event(..)\<close> on the run's slot.\<close>

definition event_on ::
  "run_key \<Rightarrow> string \<Rightarrow> (string, json) hmap \<Rightarrow> (string, f64) hmap \<Rightarrow> Event option eng" where
  "event_on run stream data timestamps = (\<lambda>s.
     case hget (en_runs s) run of
       None \<Rightarrow> (Err (Plan ''Collect lost open run mid-process''), s)
     | Some sl \<Rightarrow>
         (let (ev, bundle) = bundle_event (bd_bundle (rn_bundler sl)) stream data timestamps
                 (w_uid (en_world s) (en_uids s)) (w_now (en_world s) (en_trace s))
          in (Ok ev, put_slot run (sl\<lparr> rn_bundler := (rn_bundler sl)\<lparr> bd_bundle := bundle \<rparr> \<rparr>)
                       (s\<lparr> en_uids := Suc (en_uids s) \<rparr>))))"

definition reset_checkpoint_state :: "engine \<Rightarrow> engine" where
  "reset_checkpoint_state s = upd_all_bundlers bundler_reset_checkpoint (s\<lparr> en_msg_cache := [] \<rparr>)"

section \<open>Opening and closing runs\<close>

definition merge_metadata :: "md \<Rightarrow> RunMetadata \<Rightarrow> md \<Rightarrow> md" where
  "merge_metadata persistent meta per_call =
     (let m1 = hput ''plan_type'' (JString ''generator'') persistent;
          m2 = (case md_plan_name meta of None \<Rightarrow> m1 | Some pn \<Rightarrow> hput ''plan_name'' (JString pn) m1);
          m3 = hextend m2 (md_extra meta)
      in hextend m3 per_call)"

definition json_u64 :: "u64 \<Rightarrow> json" where
  "json_u64 n = JInt (uint n)"

definition resolve_scan_id :: "RunMetadata \<Rightarrow> md \<Rightarrow> u64 eng" where
  "resolve_scan_id meta merged =
     (case md_scan_id meta of
        Some n \<Rightarrow> seqE (modE (\<lambda>s. s\<lparr> en_scan_id := n \<rparr>)) (retE n)
      | None \<Rightarrow>
          bindE (getE en_scan_id_source) (\<lambda>installed.
          if installed
          then bindE (getE (\<lambda>s. w_scan_id_source (en_world s) (en_trace s) merged)) liftE
          else bindE (getE en_scan_id) (\<lambda>n.
               seqE (modE (\<lambda>s. s\<lparr> en_scan_id := n + 1 \<rparr>)) (retE (n + 1)))))"

definition interruption_key :: "(string, DataKey) hmap" where
  "interruption_key =
     [(''interruption'',
       \<lparr> dk_source = ''RunEngine'', dk_dtype = DtString, dk_shape = [], dk_dtype_numpy = None,
         dk_external = None, dk_units = None, dk_precision = None, dk_object_name = None,
         dk_dims = None, dk_limits = None, dk_choices = None \<rparr>)]"

text \<open>The new slot goes in with the interruptions stream declared when recording is on.\<close>

definition install_run :: "run_key \<Rightarrow> RunStart \<Rightarrow> EventDescriptor option eng" where
  "install_run run start = (\<lambda>s.
     let bundler = bundler_new (bundle_open start)
     in if en_record_interruptions s
        then (let (d, b) = declare_stream bundler ''interruptions'' [objectless interruption_key]
                             (w_uid (en_world s) (en_uids s)) (w_now (en_world s) (en_trace s))
              in (Ok (Some d), put_slot run (slot_of b) (s\<lparr> en_uids := Suc (en_uids s) \<rparr>)))
        else (Ok None, put_slot run (slot_of bundler) s))"

definition open_run :: "run_key \<Rightarrow> RunMetadata \<Rightarrow> string eng" where
  "open_run run meta =
     seqE (guardE (\<lambda>s. \<not> run_open s run) (Plan ''OpenRun while a previous run is still open''))
     (bindE (getE (\<lambda>s. merge_metadata (en_md s) meta (en_per_call_md s))) (\<lambda>merged0.
      bindE (resolve_scan_id meta merged0) (\<lambda>scan_id.
      let merged1 = (if hmem ''scan_id'' merged0 then merged0 else hput ''scan_id'' (json_u64 scan_id) merged0)
      in seqE (modE (\<lambda>s. s\<lparr> en_md := hput ''scan_id'' (json_u64 scan_id) (en_md s) \<rparr>))
         (bindE fresh_uid (\<lambda>uid.
          bindE nowE (\<lambda>now.
          let start_doc0 = bundle_start uid now (Some scan_id) None
          in seqE (bindE (getE (\<lambda>s. if en_md_validator s then w_md_validator (en_world s) (en_trace s) merged1 else Ok ())) liftE)
             (bindE (bindE (getE (\<lambda>s. if en_md_normalizer s then w_md_normalizer (en_world s) (en_trace s) merged1 else Ok merged1)) liftE) (\<lambda>merged2.
              let start_doc = start_doc0\<lparr> rs_extra := hextend (rs_extra start_doc0) merged2 \<rparr>
              in seqE (broadcast (DocStart start_doc))
                 (bindE (install_run run start_doc) (\<lambda>d.
                  seqE (case d of None \<Rightarrow> retE () | Some desc \<Rightarrow> broadcast (DocDescriptor desc))
                       (retE uid)))))))))))"

definition normalize_exit_status :: "string \<Rightarrow> string" where
  "normalize_exit_status st = (if st = ''halt'' then ''abort'' else st)"

text \<open>The slot is removed (its monitors with it) before the stop document is composed.\<close>

definition compose_stop :: "run_key \<Rightarrow> string \<Rightarrow> string option \<Rightarrow> RunStop option eng" where
  "compose_stop run exit_status reason = (\<lambda>s.
     case hget (en_runs s) run of
       None \<Rightarrow> (Ok None, s)
     | Some sl \<Rightarrow>
         (let s1 = s\<lparr> en_runs := hdel run (en_runs s), en_uids := Suc (en_uids s) \<rparr>
          in case bundle_stop (bd_bundle (rn_bundler sl)) exit_status reason
                    (w_uid (en_world s) (en_uids s)) (w_now (en_world s) (en_trace s)) of
               Ok st \<Rightarrow> (Ok (Some st), s1)
             | Err e \<Rightarrow> (Err e, s1)
             | Panic p \<Rightarrow> (Panic p, s1)
             | Hang \<Rightarrow> (Hang, s1)))"

definition checkpoint_hook :: "string option \<Rightarrow> string option \<Rightarrow> unit eng" where
  "checkpoint_hook run_uid exit_status =
     modE (\<lambda>s. if en_checkpoint_hook s then push (Hooked ''checkpoint'' run_uid exit_status) s else s)"

definition close_run_if_open :: "run_key \<Rightarrow> string \<Rightarrow> string option \<Rightarrow> unit eng" where
  "close_run_if_open run exit_status0 reason =
     (let exit_status = normalize_exit_status exit_status0
      in bindE (compose_stop run exit_status reason) (\<lambda>stop_doc.
         case stop_doc of
           None \<Rightarrow> retE ()
         | Some st \<Rightarrow>
             seqE (broadcast (DocStop st)) (checkpoint_hook (Some (stop_run_start st)) (Some exit_status))))"

definition h_open_run :: "run_key \<Rightarrow> RunMetadata \<Rightarrow> string option eng" where
  "h_open_run run meta =
     bindE (open_run run meta) (\<lambda>uid. seqE (set_result (OpenRunResult uid)) (retE (Some uid)))"

definition h_close_run :: "run_key \<Rightarrow> string \<Rightarrow> string option \<Rightarrow> unit eng" where
  "h_close_run run exit_status reason =
     seqE (guardE (\<lambda>s. run_open s run) (Plan ''CloseRun without an open run''))
     (seqE (close_run_if_open run exit_status reason)
           (set_result (CloseRunResult exit_status)))"

section \<open>Bundles\<close>

definition h_create :: "run_key \<Rightarrow> string \<Rightarrow> unit eng" where
  "h_create run stream_name = (\<lambda>s.
     case hget (en_runs s) run of
       None \<Rightarrow> (Err (Plan ''Create with no open run''), s)
     | Some sl \<Rightarrow>
         (case bundler_create (rn_bundler sl) stream_name of
            Ok b \<Rightarrow> (Ok (), put_slot run (sl\<lparr> rn_bundler := b, rn_bundle_asset_objs := [] \<rparr>) s)
          | Err e \<Rightarrow> (Err e, s)
          | Panic p \<Rightarrow> (Panic p, s)
          | Hang \<Rightarrow> (Hang, s)))"

definition save_slot :: "run_key \<Rightarrow> (Document list \<times> string option \<times> device list) eng" where
  "save_slot run = (\<lambda>s.
     case hget (en_runs s) run of
       None \<Rightarrow> (Err (Plan ''Save with no open run''), s)
     | Some sl \<Rightarrow>
         (let stream_name = open_stream_name (rn_bundler sl);
              n = en_uids s;
              (r, b) = bundler_save (rn_bundler sl) (w_uid (en_world s) n) (w_uid (en_world s) (Suc n))
                         (w_now (en_world s) (en_trace s));
              sl1 = sl\<lparr> rn_bundler := b \<rparr>;
              s1 = s\<lparr> en_uids := n + 2 \<rparr>
          in case r of
               Ok docs \<Rightarrow> (Ok (docs, stream_name, rn_bundle_asset_objs sl),
                           put_slot run (sl1\<lparr> rn_bundle_asset_objs := [] \<rparr>) s1)
             | Err e \<Rightarrow> (Err e, put_slot run sl1 s1)
             | Panic p \<Rightarrow> (Panic p, put_slot run sl1 s1)
             | Hang \<Rightarrow> (Hang, put_slot run sl1 s1)))"

definition drain_assets :: "string \<Rightarrow> device list \<Rightarrow> Document list eng" where
  "drain_assets uid objs =
     bindE (mapE objs (\<lambda>obj. callE ''collect_asset_docs'' obj (\<lambda>w t. w_asset_docs w t obj uid)))
       (\<lambda>dss. retE (concat dss))"

text \<open>\<open>pack_external_assets\<close> against the run's resource registry.\<close>

definition pack_on :: "run_key \<Rightarrow> string \<Rightarrow> u64 \<Rightarrow> string option \<Rightarrow> Document list \<Rightarrow> (Document list \<times> u64) eng" where
  "pack_on run missing next_seq stream docs = (\<lambda>s.
     case hget (en_runs s) run of
       None \<Rightarrow> (Err (Plan missing), s)
     | Some sl \<Rightarrow>
         (let b = rn_bundler sl;
              ext = (case stream of None \<Rightarrow> []
                     | Some st \<Rightarrow> (case external_data_keys (bd_bundle b) st of None \<Rightarrow> [] | Some ks \<Rightarrow> ks));
              (r, reg) = pack_external_assets docs (bd_start_uid b) next_seq ext
                           (bd_stream_resource_data_keys b)
          in (r, put_slot run (sl\<lparr> rn_bundler := b\<lparr> bd_stream_resource_data_keys := reg \<rparr> \<rparr>) s)))"

definition first_event_seq :: "Document list \<Rightarrow> u64 option" where
  "first_event_seq docs =
     (case filter_map (\<lambda>d. case d of DocEvent e \<Rightarrow> Some (ev_seq_num e) | _ \<Rightarrow> None) docs of
        [] \<Rightarrow> None | n # _ \<Rightarrow> Some n)"

definition is_stream_datum :: "Document \<Rightarrow> bool" where
  "is_stream_datum d = (case d of DocStreamDatum _ \<Rightarrow> True | _ \<Rightarrow> False)"

definition pack_save_assets ::
  "run_key \<Rightarrow> Document list \<Rightarrow> string option \<Rightarrow> Document list \<Rightarrow> Document list eng" where
  "pack_save_assets run docs stream_name assets =
     (if assets = [] then retE []
      else
        let event_seq = first_event_seq docs
        in if event_seq = None \<and> list_ex is_stream_datum assets
           then failE (Plan ''Save drained StreamDatum documents but composed no Event to anchor their seq_nums'')
           else bindE (pack_on run ''Save lost open run before stream docs''
                        (case event_seq of None \<Rightarrow> 0 | Some n \<Rightarrow> n) stream_name assets)
                  (\<lambda>(packed, _). retE packed))"

text \<open>Descriptors first, then the stream assets, then the event they accompany.\<close>

definition emit_save :: "Document list \<Rightarrow> Document list \<Rightarrow> unit eng" where
  "emit_save docs assets =
     seqE (forE (filter is_descriptor docs) broadcast)
     (seqE (forE assets forward)
           (forE (filter (\<lambda>d. \<not> is_descriptor d) docs) broadcast))"

definition h_save :: "run_key \<Rightarrow> unit eng" where
  "h_save run =
     bindE (save_slot run) (\<lambda>(docs, stream_name, asset_objs).
     bindE (getE (\<lambda>s. case (bundler_of s run, stream_name) of
                        (Some b, Some st) \<Rightarrow> descriptor_uid b st | _ \<Rightarrow> None)) (\<lambda>duid.
     bindE (case duid of None \<Rightarrow> retE [] | Some uid \<Rightarrow> drain_assets uid asset_objs) (\<lambda>assets.
     bindE (pack_save_assets run docs stream_name assets) (\<lambda>packed.
       emit_save docs packed))))"

definition h_drop :: "run_key \<Rightarrow> unit eng" where
  "h_drop run = (\<lambda>s.
     case hget (en_runs s) run of
       None \<Rightarrow> (Err (Plan ''Drop with no open run''), s)
     | Some sl \<Rightarrow>
         (case drop_bundle (rn_bundler sl) of
            (Ok _, b) \<Rightarrow> (Ok (), put_slot run (sl\<lparr> rn_bundler := b, rn_bundle_asset_objs := [] \<rparr>) s)
          | (Err e, b) \<Rightarrow> (Err e, s)
          | (Panic p, b) \<Rightarrow> (Panic p, s)
          | (Hang, b) \<Rightarrow> (Hang, s)))"

definition describe_readable :: "run_key \<Rightarrow> device \<Rightarrow> StreamObject eng" where
  "describe_readable run obj =
     bindE (callE ''describe'' obj (\<lambda>w t. w_describe w t obj)) (\<lambda>data_keys.
     bindE (ensure_object_configuration run obj) (\<lambda>config.
       stream_object obj data_keys config))"

definition describe_collectable :: "run_key \<Rightarrow> string \<Rightarrow> device \<Rightarrow> StreamObject eng" where
  "describe_collectable run stream_name obj =
     bindE (callE ''describe_collect'' obj (\<lambda>w t. w_describe_collect w t obj)) (\<lambda>descs.
     bindE (case hget descs stream_name of
              Some dks \<Rightarrow> if hdel stream_name descs = [] then retE dks
                          else failE (Plan (''declare_stream: expected '' @ dv_name obj @ '' to collect into the single stream ''
                                 @ stream_name))
            | None \<Rightarrow> failE (Plan (''declare_stream: expected '' @ dv_name obj @ '' to collect into the single stream ''
                                 @ stream_name))) (\<lambda>data_keys.
     bindE (ensure_object_configuration run obj) (\<lambda>config.
       stream_object obj data_keys config)))"

definition describe_stream_objs :: "run_key \<Rightarrow> string \<Rightarrow> StreamObjs \<Rightarrow> StreamObject list eng" where
  "describe_stream_objs run stream_name objs =
     (case objs of
        ReadableObjs ds \<Rightarrow> mapE ds (describe_readable run)
      | CollectableObjs ds \<Rightarrow> mapE ds (describe_collectable run stream_name))"

definition h_declare_stream :: "run_key \<Rightarrow> string \<Rightarrow> StreamObjs \<Rightarrow> unit eng" where
  "h_declare_stream run stream_name objs =
     seqE (guardE (\<lambda>s. run_open s run) (Plan ''DeclareStream with no open run''))
     (bindE (describe_stream_objs run stream_name objs) (\<lambda>stream_objs.
      let declared_for = set (filter_map so_object stream_objs)
      in seqE (guardE (\<lambda>s. run_open s run) (Plan ''DeclareStream with no open run''))
         (seqE (modE (upd_bundler run (\<lambda>b. record_declared_stream b declared_for stream_name)))
         (bindE (declare_on run ''DeclareStream with no open run'' stream_name stream_objs) (\<lambda>d.
            broadcast (DocDescriptor d))))))"

definition is_bundling_run :: "engine \<Rightarrow> run_key \<Rightarrow> bool" where
  "is_bundling_run s run = (case bundler_of s run of None \<Rightarrow> False | Some b \<Rightarrow> is_bundling b)"

definition add_read_on :: "run_key \<Rightarrow> device \<Rightarrow> StreamObject \<Rightarrow> readings \<Rightarrow> bool \<Rightarrow> unit eng" where
  "add_read_on run obj read_obj readings tracks_assets = (\<lambda>s.
     case hget (en_runs s) run of
       None \<Rightarrow> (Ok (), s)
     | Some sl \<Rightarrow>
         (case add_read (rn_bundler sl) read_obj readings of
            Ok b \<Rightarrow> (Ok (), put_slot run (sl\<lparr> rn_bundler := b,
                        rn_bundle_asset_objs := rn_bundle_asset_objs sl @ (if tracks_assets then [obj] else []) \<rparr>) s)
          | Err e \<Rightarrow> (Err e, s)
          | Panic p \<Rightarrow> (Panic p, s)
          | Hang \<Rightarrow> (Hang, s)))"

definition h_read :: "run_key \<Rightarrow> device \<Rightarrow> unit eng" where
  "h_read run obj =
     bindE (callE ''read'' obj (\<lambda>w t. w_read w t obj)) (\<lambda>readings.
     bindE (getE (\<lambda>s. is_bundling_run s run)) (\<lambda>bundling.
     seqE (if bundling
           then bindE (describe_readable run obj) (\<lambda>read_obj.
                bindE (getE (\<lambda>s. w_writes_assets (en_world s) (en_trace s) obj)) (\<lambda>tracks.
                  add_read_on run obj read_obj readings tracks))
           else retE ())
          (set_result (ReadingResult readings))))"

section \<open>Moving, triggering, waiting\<close>

definition status_outcome :: "resolution \<Rightarrow> unit outcome" where
  "status_outcome res =
     (case res of
        Resolved r \<Rightarrow> Ok ()
      | StatusFailed StCancelled \<Rightarrow> Err Cancelled
      | StatusFailed StTimeout \<Rightarrow> Err (Status StTimeout)
      | StatusFailed (StFailed m) \<Rightarrow> Err (Backend m)
      | TimedOut \<Rightarrow> Hang
      | Never \<Rightarrow> Hang)"

definition handle_status :: "status_id \<Rightarrow> group_id option \<Rightarrow> unit eng" where
  "handle_status status grp =
     (case grp of
        Some g \<Rightarrow> modE (\<lambda>s. s\<lparr> en_groups := hpush g status (en_groups s) \<rparr>)
      | None \<Rightarrow> parkE (ParkStatus status) status_outcome)"

definition note_group :: "group_id option \<Rightarrow> unit eng" where
  "note_group grp = (case grp of None \<Rightarrow> retE () | Some g \<Rightarrow> set_result (StatusResult g))"

definition status_call :: "string \<Rightarrow> device \<Rightarrow> group_id option \<Rightarrow> unit eng" where
  "status_call m obj grp =
     bindE (callE m obj (\<lambda>w t. Ok (w_status_call w t m obj))) (\<lambda>status.
     seqE (note_group grp) (handle_status status grp))"

definition unit_call :: "string \<Rightarrow> device \<Rightarrow> unit eng" where
  "unit_call m obj = callE m obj (\<lambda>w t. w_unit_call w t m obj)"

definition h_set :: "device \<Rightarrow> f64 \<Rightarrow> group_id option \<Rightarrow> unit eng" where
  "h_set obj value grp =
     seqE (modE (\<lambda>s. s\<lparr> en_movables := hput (dv_name obj) obj (en_movables s) \<rparr>))
          (status_call ''set'' obj grp)"

definition h_trigger :: "device \<Rightarrow> group_id option \<Rightarrow> unit eng" where
  "h_trigger obj grp = status_call ''trigger'' obj grp"

definition h_prepare :: "device \<Rightarrow> json \<Rightarrow> group_id option \<Rightarrow> unit eng" where
  "h_prepare obj value grp = status_call ''prepare'' obj grp"

definition h_complete :: "device \<Rightarrow> group_id option \<Rightarrow> unit eng" where
  "h_complete obj grp = status_call ''complete'' obj grp"

definition h_kickoff :: "run_key \<Rightarrow> device \<Rightarrow> group_id option \<Rightarrow> unit eng" where
  "h_kickoff run obj grp =
     seqE (guardE (\<lambda>s. run_open s run) (Plan ''Kickoff sent but no run is open''))
     (seqE (modE (\<lambda>s. s\<lparr> en_flyables := hput (dv_name obj) obj (en_flyables s) \<rparr>))
     (seqE (modE (\<lambda>s. case w_as_collectable (en_world s) obj of
                        None \<Rightarrow> s
                      | Some coll \<Rightarrow>
                          upd_slot run (\<lambda>sl. sl\<lparr> rn_uncollected := hput (dv_name coll) coll (rn_uncollected sl) \<rparr>) s))
           (status_call ''kickoff'' obj grp)))"

definition h_stage :: "device \<Rightarrow> unit eng" where
  "h_stage obj =
     seqE (unit_call ''stage'' obj)
          (modE (\<lambda>s. reset_checkpoint_state
             (s\<lparr> en_staged := (if obj \<in> set (en_staged s) then en_staged s else en_staged s @ [obj]) \<rparr>)))"

definition h_unstage :: "device \<Rightarrow> unit eng" where
  "h_unstage obj =
     seqE (unit_call ''unstage'' obj)
          (modE (\<lambda>s. reset_checkpoint_state (s\<lparr> en_staged := filter (\<lambda>o1. o1 \<noteq> obj) (en_staged s) \<rparr>)))"

definition h_stop :: "device \<Rightarrow> bool \<Rightarrow> unit eng" where
  "h_stop obj success = unit_call (if success then ''stop'' else ''emergency_stop'') obj"

definition h_locate :: "device \<Rightarrow> unit eng" where
  "h_locate obj =
     bindE (callE ''locate'' obj (\<lambda>w t. w_locate w t obj)) (\<lambda>loc.
       set_result (LocationResult (loc_setpoint loc) (loc_readback loc)))"

text \<open>A move-on timeout restores the members; a cancelled or failed wait loses them.\<close>

definition wait_group :: "group_id \<Rightarrow> bool \<Rightarrow> duration option \<Rightarrow> bool eng" where
  "wait_group grp error_on_timeout timeout =
     bindE (getE (\<lambda>s. case hget (en_groups s) grp of None \<Rightarrow> [] | Some ms \<Rightarrow> ms)) (\<lambda>members.
     seqE (modE (\<lambda>s. s\<lparr> en_groups := hdel grp (en_groups s) \<rparr>))
     (if members = [] then retE True
      else
        bindE (parkE (ParkAll members) Ok) (\<lambda>res.
        case (res, timeout) of
          (TimedOut, Some d) \<Rightarrow>
            if error_on_timeout then failE (Timeout d)
            else seqE (modE (\<lambda>s. s\<lparr> en_groups := happend grp members (en_groups s) \<rparr>)) (retE False)
        | _ \<Rightarrow> seqE (liftE (status_outcome res)) (retE True))))"

definition h_wait :: "group_id \<Rightarrow> bool \<Rightarrow> duration option \<Rightarrow> unit eng" where
  "h_wait grp error_on_timeout timeout =
     bindE (wait_group grp error_on_timeout timeout) (\<lambda>d. set_result (WaitComplete d))"

definition h_sleep :: "duration \<Rightarrow> unit eng" where
  "h_sleep d = parkE (ParkSleep d) status_outcome"

definition h_wait_for :: "nat list \<Rightarrow> duration option \<Rightarrow> unit eng" where
  "h_wait_for factories timeout =
     parkE (ParkFactories factories)
       (\<lambda>res. case (res, timeout) of
          (Resolved r, _) \<Rightarrow> r
        | (TimedOut, Some d) \<Rightarrow> Err (Timeout d)
        | _ \<Rightarrow> Hang)"

section \<open>Collecting\<close>

text \<open>The stream a collect goes to, from what \<open>DeclareStream\<close> declared for the object.\<close>

definition resolve_collect_stream :: "run_key \<Rightarrow> device \<Rightarrow> string option \<Rightarrow> string option eng" where
  "resolve_collect_stream run obj stream_name = (\<lambda>s.
     case bundler_of s run of
       None \<Rightarrow> (Err (Plan ''A 'collect' message was sent but no run is open''), s)
     | Some b \<Rightarrow>
         (let declared = declared_stream_names b {dv_name obj}
          in case stream_name of
               Some name \<Rightarrow>
                 (if name \<in> set declared then Ok (Some name)
                  else Err (Plan (''collect: stream was given but declare_stream was not called for it first: '' @ name)), s)
             | None \<Rightarrow>
                 (if 1 < card (set declared)
                  then Err (Plan (''collect: several declared streams; pass the stream name: '' @ dv_name obj))
                  else Ok (case declared of [] \<Rightarrow> None | n # _ \<Rightarrow> Some n), s)))"

text \<open>Declare every described stream that has no descriptor yet, under one lock, then broadcast.\<close>

fun declare_collect ::
  "run_key \<Rightarrow> device \<Rightarrow> Configuration \<Rightarrow> (string, (string, DataKey) hmap) hmap \<Rightarrow> EventDescriptor list eng" where
  "declare_collect run obj config [] = retE []"
| "declare_collect run obj config ((name, dks) # descs) =
     bindE (getE (\<lambda>s. case bundler_of s run of None \<Rightarrow> None | Some b \<Rightarrow> descriptor_uid b name)) (\<lambda>known.
     bindE (if known = None
            then bindE (stream_object obj dks config) (\<lambda>o1.
                 bindE (declare_on run ''Collect with no open run'' name [o1]) (\<lambda>d. retE [d]))
            else retE []) (\<lambda>d.
     bindE (declare_collect run obj config descs) (\<lambda>ds. retE (d @ ds))))"

definition collect_stream_of ::
  "run_key \<Rightarrow> device \<Rightarrow> string option \<Rightarrow> string option eng" where
  "collect_stream_of run obj declared_stream =
     (case declared_stream of
        Some st \<Rightarrow> retE (Some st)
      | None \<Rightarrow>
          bindE (callE ''describe_collect'' obj (\<lambda>w t. w_describe_collect w t obj)) (\<lambda>descs.
          bindE (ensure_object_configuration run obj) (\<lambda>config.
          seqE (guardE (\<lambda>s. run_open s run) (Plan ''Collect with no open run''))
          (bindE (declare_collect run obj config descs) (\<lambda>new_descriptors.
          seqE (forE new_descriptors (\<lambda>d. broadcast (DocDescriptor d)))
               (retE (case descs of [] \<Rightarrow> None | (n, _) # _ \<Rightarrow> Some n)))))))"

definition next_seq_on :: "run_key \<Rightarrow> string \<Rightarrow> u64 eng" where
  "next_seq_on run stream =
     bindE (getE (\<lambda>s. case bundler_of s run of
                        None \<Rightarrow> Err (Plan ''Collect lost open run before stream docs'')
                      | Some b \<Rightarrow> (case peek_next_seq (bd_bundle b) stream of
                                     None \<Rightarrow> Err (Plan ''Collect stream has a descriptor but no sequence counter'')
                                   | Some n \<Rightarrow> Ok n))) liftE"

definition advance_on :: "run_key \<Rightarrow> string \<Rightarrow> u64 \<Rightarrow> engine \<Rightarrow> engine" where
  "advance_on run stream n =
     upd_bundler run (\<lambda>b. b\<lparr> bd_bundle := snd (advance_seq (bd_bundle b) stream n) \<rparr>)"

definition collect_assets :: "run_key \<Rightarrow> device \<Rightarrow> string \<Rightarrow> string \<Rightarrow> unit eng" where
  "collect_assets run obj stream descriptor =
     bindE (callE ''collect_stream_docs'' obj (\<lambda>w t. w_stream_docs w t obj descriptor)) (\<lambda>asset_docs.
     if asset_docs = [] then retE ()
     else
       bindE (next_seq_on run stream) (\<lambda>next_seq.
       bindE (pack_on run ''Collect lost open run before stream docs'' next_seq (Some stream) asset_docs) (\<lambda>(docs, width).
       seqE (modE (if 0 < width then advance_on run stream width else (\<lambda>s. s)))
            (forE docs forward))))"

definition emit_collected :: "run_key \<Rightarrow> string \<Rightarrow> (string, json) hmap \<Rightarrow> (string, f64) hmap \<Rightarrow> unit eng" where
  "emit_collected run stream data timestamps =
     bindE (event_on run stream data timestamps) (\<lambda>ev.
     case ev of None \<Rightarrow> failE (Plan ''event for unknown stream'') | Some e \<Rightarrow> broadcast (DocEvent e))"

definition collect_object :: "run_key \<Rightarrow> device \<Rightarrow> string option \<Rightarrow> unit eng" where
  "collect_object run obj stream_name =
     seqE (guardE (\<lambda>s. run_open s run) (Plan ''A 'collect' message was sent but no run is open''))
     (bindE (resolve_collect_stream run obj stream_name) (\<lambda>declared_stream.
      bindE (collect_stream_of run obj declared_stream) (\<lambda>collect_stream.
      bindE (bindE (getE (\<lambda>s. case bundler_of s run of
                 None \<Rightarrow> Err (Plan ''Collect lost open run before stream docs'')
               | Some b \<Rightarrow> Ok (case collect_stream of None \<Rightarrow> None | Some st \<Rightarrow> descriptor_uid b st))) liftE) (\<lambda>duid.
      seqE (case (duid, collect_stream) of
              (Some uid, Some st) \<Rightarrow> collect_assets run obj st uid
            | _ \<Rightarrow> retE ())
      (bindE (callE ''collect'' obj (\<lambda>w t. w_collect w t obj)) (\<lambda>events.
      seqE (forE events (\<lambda>(name, data, timestamps).
              emit_collected run (case declared_stream of None \<Rightarrow> name | Some st \<Rightarrow> st) data timestamps))
           (modE (upd_slot run (\<lambda>sl. sl\<lparr> rn_uncollected := hdel (dv_name obj) (rn_uncollected sl) \<rparr>)))))))))"

definition backstop_collect :: "unit eng" where
  "backstop_collect =
     bindE (getE (\<lambda>s. concat (map (\<lambda>(run, sl). map (Pair run) (hvalues (rn_uncollected sl))) (en_runs s)))) (\<lambda>pending.
       forE pending (\<lambda>(run, obj). ignoreE (collect_object run obj None)))"

definition drain_and_close :: "string \<Rightarrow> string option \<Rightarrow> unit eng" where
  "drain_and_close status reason =
     seqE backstop_collect
     (bindE (getE (\<lambda>s. hkeys (en_runs s))) (\<lambda>open_keys.
       forE open_keys (\<lambda>key. close_run_if_open key status reason)))"

section \<open>Monitors\<close>

definition declare_monitor :: "run_key \<Rightarrow> string \<Rightarrow> device \<Rightarrow> (string, DataKey) hmap \<Rightarrow> Configuration \<Rightarrow> unit eng" where
  "declare_monitor run stream obj data_keys config =
     seqE (guardE (\<lambda>s. run_open s run) (Plan ''Monitor with no open run''))
     (bindE (getE (\<lambda>s. case bundler_of s run of None \<Rightarrow> None | Some b \<Rightarrow> descriptor_uid b stream)) (\<lambda>known.
      if known \<noteq> None then retE ()
      else bindE (stream_object obj data_keys config) (\<lambda>o1.
           bindE (declare_on run ''Monitor with no open run'' stream [o1]) (\<lambda>d.
             broadcast (DocDescriptor d)))))"

definition start_monitor :: "run_key \<Rightarrow> string \<Rightarrow> device \<Rightarrow> unit eng" where
  "start_monitor run stream obj =
     bindE (callE ''describe'' obj (\<lambda>w t. w_describe w t obj)) (\<lambda>data_keys.
     bindE (ensure_object_configuration run obj) (\<lambda>config.
     seqE (declare_monitor run stream obj data_keys config)
     (bindE (callE ''subscribe'' obj (\<lambda>w t. w_subscribe w t obj)) (\<lambda>key.
      if \<not> hmem key data_keys
      then failE (Plan (''Monitor: streams a data key which its describe() does not declare: '' @ dv_name obj))
      else modE (upd_slot run (\<lambda>sl. sl\<lparr> rn_monitor_tasks :=
             hput (dv_name obj) \<lparr> mt_obj = obj, mt_stream = stream, mt_event_key = key \<rparr> (rn_monitor_tasks sl) \<rparr>))))))"

definition is_monitored :: "engine \<Rightarrow> run_key \<Rightarrow> string \<Rightarrow> bool" where
  "is_monitored s run name =
     (case hget (en_runs s) run of None \<Rightarrow> False | Some sl \<Rightarrow> hmem name (rn_monitored sl))"

definition monitor_stream_name :: "string option \<Rightarrow> string eng" where
  "monitor_stream_name name = (\<lambda>s.
     case name of
       Some n \<Rightarrow> (Ok n, s)
     | None \<Rightarrow> (Ok (''monitor-'' @ show_nat (unat (en_monitor_counter s))),
               s\<lparr> en_monitor_counter := en_monitor_counter s + 1 \<rparr>))"

definition h_monitor :: "run_key \<Rightarrow> device \<Rightarrow> string option \<Rightarrow> unit eng" where
  "h_monitor run obj name =
     seqE (guardE (\<lambda>s. run_open s run) (Plan ''A 'monitor' message was sent but no run is open''))
     (seqE (guardE (\<lambda>s. \<not> is_monitored s run (dv_name obj))
             (Plan (''A 'monitor' message was sent for an object which is already monitored: '' @ dv_name obj)))
     (bindE (monitor_stream_name name) (\<lambda>stream.
      seqE (start_monitor run stream obj)
           (modE (\<lambda>s. reset_checkpoint_state (upd_slot run (\<lambda>sl. sl\<lparr> rn_monitored :=
              hput (dv_name obj) \<lparr> mon_obj = obj, mon_stream = stream \<rparr> (rn_monitored sl) \<rparr>) s))))))"

text \<open>The pump is stopped gracefully: what it had not consumed yet is still emitted.\<close>

definition stop_task :: "run_key \<Rightarrow> MonitorTask option \<Rightarrow> unit eng" where
  "stop_task run task =
     (case task of
        None \<Rightarrow> retE ()
      | Some t \<Rightarrow>
          seqE (awaitE (Called ''unsubscribe'' (mt_obj t)))
               (modE (\<lambda>s. fold (pump_event run t) (w_pending_readings (en_world s) (en_trace s) (mt_obj t)) s)))"

definition h_unmonitor :: "run_key \<Rightarrow> device \<Rightarrow> unit eng" where
  "h_unmonitor run obj =
     seqE (guardE (\<lambda>s. is_monitored s run (dv_name obj))
             (Plan (''Cannot 'unmonitor'; it is not being monitored: '' @ dv_name obj)))
     (bindE (getE (\<lambda>s. case hget (en_runs s) run of None \<Rightarrow> None
                       | Some sl \<Rightarrow> hget (rn_monitor_tasks sl) (dv_name obj))) (\<lambda>task.
      seqE (modE (\<lambda>s. reset_checkpoint_state (upd_slot run
              (\<lambda>sl. sl\<lparr> rn_monitored := hdel (dv_name obj) (rn_monitored sl),
                       rn_monitor_tasks := hdel (dv_name obj) (rn_monitor_tasks sl) \<rparr>) s)))
           (stop_task run task)))"

section \<open>Checkpoints, configuration, registries\<close>

definition audit_run_uid :: "engine \<Rightarrow> string option" where
  "audit_run_uid s =
     (case bundler_of s None of
        Some b \<Rightarrow> Some (bd_start_uid b)
      | None \<Rightarrow> (case en_runs s of [] \<Rightarrow> None | (_, sl) # _ \<Rightarrow> Some (bd_start_uid (rn_bundler sl))))"

definition h_checkpoint :: "unit eng" where
  "h_checkpoint =
     seqE (guardE (\<lambda>s. \<not> any_bundling s) (Plan ''Cannot 'checkpoint' after 'create' and before 'save' ''))
     (seqE (modE (\<lambda>s. (reset_checkpoint_state s)\<lparr> en_rewindable := True \<rparr>))
     (bindE (getE audit_run_uid) (\<lambda>run_uid.
      seqE (checkpoint_hook run_uid None)
           (modE (upd_control (\<lambda>c. if ct_deferred_pause c
                                   then upd_ctl ctl_pause (c\<lparr> ct_deferred_pause := False \<rparr>) else c))))))"

definition h_clear_checkpoint :: "unit eng" where
  "h_clear_checkpoint =
     modE (\<lambda>s. upd_all_bundlers bundler_clear_checkpoint (s\<lparr> en_rewindable := False, en_msg_cache := [] \<rparr>))"

definition h_rewindable :: "bool \<Rightarrow> unit eng" where
  "h_rewindable b =
     modE (\<lambda>s. if en_rewindable s \<noteq> b then reset_checkpoint_state (s\<lparr> en_rewindable := b \<rparr>) else s)"

definition fresh_for :: "engine \<Rightarrow> RunBundler \<Rightarrow> string \<Rightarrow> string" where
  "fresh_for s b name =
     w_uid (en_world s)
       (en_uids s + (case position (\<lambda>k. k = name) (hkeys (bd_descriptors b)) of None \<Rightarrow> 0 | Some i \<Rightarrow> i))"

text \<open>Compose the new generations without installing them.\<close>

definition compose_generations :: "run_key \<Rightarrow> string \<Rightarrow> Configuration \<Rightarrow> EventDescriptor list eng" where
  "compose_generations run name config = (\<lambda>s.
     case hget (en_runs s) run of
       None \<Rightarrow> (Ok [], s)
     | Some sl \<Rightarrow>
         (let b = cache_configuration (rn_bundler sl) name config
          in (Ok (compose_reconfigure b name config (fresh_for s b) (w_now (en_world s) (en_trace s))),
              put_slot run (sl\<lparr> rn_bundler := b \<rparr>)
                (s\<lparr> en_uids := en_uids s + length (bd_descriptors b) \<rparr>))))"

definition h_configure :: "run_key \<Rightarrow> device \<Rightarrow> ConfigureArgs \<Rightarrow> unit eng" where
  "h_configure run obj args =
     seqE (guardE (\<lambda>s. \<not> is_bundling_run s run) (Plan ''Cannot configure after 'create' but before 'save' ''))
     (seqE (unit_call ''configure'' obj)
     (bindE (getE (\<lambda>s. run_open s run)) (\<lambda>is_open.
      if \<not> is_open then retE ()
      else
        bindE (read_object_configuration obj) (\<lambda>config.
        bindE (compose_generations run (dv_name obj) config) (\<lambda>new_descriptors.
        seqE (forE new_descriptors (\<lambda>d. broadcast (DocDescriptor d)))
             (modE (upd_bundler run (\<lambda>b. install_reconfigured b new_descriptors))))))))"

definition h_input :: "string \<Rightarrow> unit eng" where
  "h_input prompt =
     seqE (guardE en_input_handler (Plan ''Msg::Input issued but no input handler installed''))
     (seqE (awaitE (Hooked ''input'' (Some prompt) None))
     (bindE (bindE (getE (\<lambda>s. w_input (en_world s) (en_trace s) prompt)) liftE) (\<lambda>text.
        set_result (InputResult text))))"

definition subscribe_filtered :: "DocFilter \<Rightarrow> callback_id \<Rightarrow> subscription_id eng" where
  "subscribe_filtered f cb = (\<lambda>s.
     let i = en_sub_counter s + 1
     in (Ok i, s\<lparr> en_sub_counter := i, en_subscribers := en_subscribers s @ [(i, f, cb)] \<rparr>))"

definition unsubscribe :: "subscription_id \<Rightarrow> engine \<Rightarrow> engine" where
  "unsubscribe i s = s\<lparr> en_subscribers := filter (\<lambda>(j, _, _). j \<noteq> i) (en_subscribers s) \<rparr>"

definition h_subscribe :: "callback_id \<Rightarrow> DocFilter \<Rightarrow> unit eng" where
  "h_subscribe cb f =
     bindE (subscribe_filtered f cb) (\<lambda>i.
     seqE (modE (\<lambda>s. reset_checkpoint_state (s\<lparr> en_temp_subscribers := en_temp_subscribers s @ [i] \<rparr>)))
          (set_result (SubscriptionIdResult i)))"

definition h_unsubscribe :: "subscription_id \<Rightarrow> unit eng" where
  "h_unsubscribe i =
     modE (\<lambda>s. reset_checkpoint_state
       ((unsubscribe i s)\<lparr> en_temp_subscribers := filter (\<lambda>j. j \<noteq> i) (en_temp_subscribers s) \<rparr>))"

definition h_custom :: "string \<Rightarrow> nat \<Rightarrow> unit eng" where
  "h_custom name payload =
     bindE (getE (\<lambda>s. hget (en_commands s) name)) (\<lambda>handler.
     case handler of
       None \<Rightarrow> failE (Plan (''unknown custom command: '' @ name))
     | Some h \<Rightarrow>
         seqE (awaitE (Hooked ''command'' (Some name) None))
              (bindE (getE (\<lambda>s. w_command (en_world s) (en_trace s) h payload)) liftE))"

definition h_install_suspender :: "u64 \<Rightarrow> suspender_id option \<Rightarrow> unit eng" where
  "h_install_suspender i susp =
     (case susp of
        None \<Rightarrow> failE (Plan ''InstallSuspender payload was not Arc<dyn Suspender>'')
      | Some k \<Rightarrow> modE (\<lambda>s. s\<lparr> en_suspenders := hput i k (en_suspenders s) \<rparr>))"

definition h_push_contingency :: "sink_id \<Rightarrow> unit eng" where
  "h_push_contingency sink =
     modE (\<lambda>s. s\<lparr> en_sinks := hdel sink (en_sinks s), en_contingency := en_contingency s @ [sink] \<rparr>)"

definition h_pop_contingency :: "unit eng" where
  "h_pop_contingency = modE (\<lambda>s. s\<lparr> en_contingency := butlast (en_contingency s) \<rparr>)"

section \<open>Dispatch\<close>

definition none_of :: "unit eng \<Rightarrow> string option eng" where
  "none_of m = seqE m (retE None)"

fun handle_msg :: "run_key \<Rightarrow> Msg \<Rightarrow> string option eng" where
  "handle_msg run (InRun r inner) = liftE (Panic ''InRun unwrapped above'')"
| "handle_msg run (OpenRun meta) = h_open_run run meta"
| "handle_msg run (CloseRun exit_status reason) = none_of (h_close_run run exit_status reason)"
| "handle_msg run (Create stream_name) = none_of (h_create run stream_name)"
| "handle_msg run Save = none_of (h_save run)"
| "handle_msg run Drop = none_of (h_drop run)"
| "handle_msg run (DeclareStream stream_name objs) = none_of (h_declare_stream run stream_name objs)"
| "handle_msg run (Read obj) = none_of (h_read run obj)"
| "handle_msg run (Locate obj) = none_of (h_locate obj)"
| "handle_msg run (Set obj v grp) = none_of (h_set obj v grp)"
| "handle_msg run (Trigger obj grp) = none_of (h_trigger obj grp)"
| "handle_msg run (Stage obj) = none_of (h_stage obj)"
| "handle_msg run (Unstage obj) = none_of (h_unstage obj)"
| "handle_msg run (Stop obj success) = none_of (h_stop obj success)"
| "handle_msg run (Kickoff obj grp) = none_of (h_kickoff run obj grp)"
| "handle_msg run (Complete obj grp) = none_of (h_complete obj grp)"
| "handle_msg run (Collect obj stream_name) = none_of (collect_object run obj stream_name)"
| "handle_msg run (Monitor obj name) = none_of (h_monitor run obj name)"
| "handle_msg run (Unmonitor obj) = none_of (h_unmonitor run obj)"
| "handle_msg run (Wait grp e timeout) = none_of (h_wait grp e timeout)"
| "handle_msg run (Sleep d) = none_of (h_sleep d)"
| "handle_msg run Checkpoint = none_of h_checkpoint"
| "handle_msg run ClearCheckpoint = none_of h_clear_checkpoint"
| "handle_msg run (Pause deferred) = none_of (modE (upd_control (pause deferred)))"
| "handle_msg run Resume = none_of (modE (upd_control resume))"
| "handle_msg run (Rewindable b) = none_of (h_rewindable b)"
| "handle_msg run (InstallSuspender i susp) = none_of (h_install_suspender i susp)"
| "handle_msg run (RemoveSuspender i) = none_of (modE (\<lambda>s. s\<lparr> en_suspenders := hdel i (en_suspenders s) \<rparr>))"
| "handle_msg run (RegisterPausable obj) =
     none_of (modE (\<lambda>s. s\<lparr> en_pausables := hput (dv_name obj) obj (en_pausables s) \<rparr>))"
| "handle_msg run (UnregisterPausable obj) =
     none_of (modE (\<lambda>s. s\<lparr> en_pausables := hdel (dv_name obj) (en_pausables s) \<rparr>))"
| "handle_msg run (Input prompt) = none_of (h_input prompt)"
| "handle_msg run ReClass = none_of (set_result (EngineClass ''bsrs.RunEngine''))"
| "handle_msg run (Subscribe cb f) = none_of (h_subscribe cb f)"
| "handle_msg run (Unsubscribe i) = none_of (h_unsubscribe i)"
| "handle_msg run (Configure obj args) = none_of (h_configure run obj args)"
| "handle_msg run (Prepare obj value grp) = none_of (h_prepare obj value grp)"
| "handle_msg run (WaitFor factories timeout) = none_of (h_wait_for factories timeout)"
| "handle_msg run (Custom name payload) = none_of (h_custom name payload)"
| "handle_msg run (Publish doc) = none_of (forward doc)"
| "handle_msg run Null = retE None"
| "handle_msg run (Fail reason) = failE (Plan reason)"
| "handle_msg run (Raise t) = failE (Plan ''Raise cannot be routed to a run'')"
| "handle_msg run (PushContingency sink) = none_of (h_push_contingency sink)"
| "handle_msg run PopContingency = none_of h_pop_contingency"

fun handle :: "Msg \<Rightarrow> string option eng" where
  "handle (InRun run inner) =
     (case inner of
        InRun _ _ \<Rightarrow> failE (Plan ''InRun cannot be nested'')
      | m \<Rightarrow> handle_msg (Some run) m)"
| "handle m = handle_msg None m"

end
