(* ===== verification/RunLoop.thy ===== *)
theory RunLoop
  imports Handlers
begin

text \<open>
  The run loop of the engine: \<open>pull_msg\<close>, \<open>throw_into_plan\<close>, the pause gate with its walks,
  \<open>run_loop\<close>, and the entry points \<open>run_async\<close> and \<open>run_async_with\<close> (\<open>engine/run_engine.rs\<close>). The loops are
  driven by a plan that may never end, so they take fuel; a run that uses it up is \<open>Hang\<close>, and so
  is a wait that nothing ends. The loop's local counters \<open>thrown_seq\<close> and \<open>pause_seen\<close> are
  arguments, and \<open>reply\<close> is what the plan last received for a \<open>Respond\<close> item (\<open>None\<close> once one
  failed: its sender is dropped). The optional whole-plan timeout (\<open>set_loop_timeout\<close>) is not modelled: the model is an
  engine without one, which is the default.
\<close>

section \<open>Plans\<close>

definition view_of :: "engine \<Rightarrow> MsgResult option \<Rightarrow> view" where
  "view_of s reply = \<lparr> vw_trace = en_trace s, vw_reply = reply, vw_sinks = en_sinks s \<rparr>"

definition poll_plan :: "plan \<Rightarrow> MsgResult option \<Rightarrow> (PlanItem \<times> plan) option eng" where
  "poll_plan p reply =
     seqE (awaitE Polled) (\<lambda>s.
       case plan_next p (view_of s reply) of
         None \<Rightarrow> (Ok None, s)
       | Some (item, sinks, p1) \<Rightarrow> (Ok (Some (item, p1)), s\<lparr> en_sinks := sinks \<rparr>))"

text \<open>The next message, whether a reply is owed for it, and the rest of the plan.\<close>

definition pull_msg :: "plan \<Rightarrow> MsgResult option \<Rightarrow> (Msg \<times> bool \<times> plan) option eng" where
  "pull_msg p reply = (\<lambda>s.
     case en_replay_queue s of
       m # ms \<Rightarrow> (Ok (Some (m, False, p)), s\<lparr> en_replay_queue := ms \<rparr>)
     | [] \<Rightarrow>
         bindE (poll_plan p reply) (\<lambda>item.
           case item of
             None \<Rightarrow> retE None
           | Some (Respond m, p1) \<Rightarrow> retE (Some (m, True, p1))
           | Some (Bare m, p1) \<Rightarrow>
               seqE (modE (\<lambda>s. if en_rewindable s \<and> is_cacheable m
                               then s\<lparr> en_msg_cache := en_msg_cache s @ [m] \<rparr> else s))
                    (retE (Some (m, False, p1)))) s)"

definition take_msg_result :: "MsgResult eng" where
  "take_msg_result = (\<lambda>s. (Ok (en_last_msg_result s), s\<lparr> en_last_msg_result := NoResult \<rparr>))"

definition throw_into_plan :: "Thrown \<Rightarrow> bool eng" where
  "throw_into_plan thrown = (\<lambda>s.
     if en_contingency s = [] then (Ok False, s)
     else (Ok True, s\<lparr> en_sinks := hput (last (en_contingency s)) thrown (en_sinks s),
                       en_replay_queue := [] \<rparr>))"

definition raised :: "Msg \<Rightarrow> Thrown option" where
  "raised m = (case m of Raise t \<Rightarrow> Some t | _ \<Rightarrow> None)"

text \<open>An injected suspender plan: no caching, no pause gate; a failing message ends it.\<close>

fun run_injected_plan :: "nat \<Rightarrow> plan \<Rightarrow> MsgResult option \<Rightarrow> unit eng" where
  "run_injected_plan 0 p reply = liftE Hang"
| "run_injected_plan (Suc n) p reply =
     bindE (getE (\<lambda>s. ct_is_aborting (en_control s))) (\<lambda>aborting.
     if aborting then retE ()
     else
       bindE (poll_plan p reply) (\<lambda>item.
       case item of
         None \<Rightarrow> retE ()
       | Some (it, p1) \<Rightarrow>
           (case raised (item_msg it) of
              Some t \<Rightarrow> retE ()
            | None \<Rightarrow> (\<lambda>s. case handle (item_msg it) s of
                      (Ok _, s1) \<Rightarrow>
                        (case it of
                           Bare _ \<Rightarrow> run_injected_plan n p1 reply s1
                         | Respond _ \<Rightarrow>
                             bindE take_msg_result (\<lambda>r. run_injected_plan n p1 (Some r)) s1)
                    | (Err e, s1) \<Rightarrow> (Ok (), s1)
                    | (Panic x, s1) \<Rightarrow> (Panic x, s1)
                    | (Hang, s1) \<Rightarrow> (Hang, s1)))))"

section \<open>The pause gate\<close>

definition interruptions_event :: "run_key \<Rightarrow> string \<Rightarrow> unit eng" where
  "interruptions_event run content =
     bindE nowE (\<lambda>now.
     bindE (event_on run ''interruptions'' [(''interruption'', JString content)] [(''interruption'', now)]) (\<lambda>ev.
       case ev of None \<Rightarrow> retE () | Some e \<Rightarrow> broadcast (DocEvent e)))"

definition record_interruption :: "string \<Rightarrow> unit eng" where
  "record_interruption content =
     bindE (getE en_record_interruptions) (\<lambda>on.
     if \<not> on then retE ()
     else
       bindE (getE (\<lambda>s. map fst (filter (\<lambda>(_, sl). descriptor_uid (rn_bundler sl) ''interruptions'' \<noteq> None)
                                   (en_runs s)))) (\<lambda>runs.
         forE runs (\<lambda>run. ignoreE (interruptions_event run content))))"

definition drop_pumps :: "engine \<Rightarrow> engine" where
  "drop_pumps s = s\<lparr> en_runs := hmap_values (\<lambda>sl. sl\<lparr> rn_monitor_tasks := [] \<rparr>) (en_runs s) \<rparr>"

definition stop_walk :: "device list \<Rightarrow> unit eng" where
  "stop_walk ds = forE ds (\<lambda>d. ignoreE (unit_call ''stop_on_pause'' d))"

definition on_pause_enter :: "string \<Rightarrow> unit eng" where
  "on_pause_enter interruption =
     seqE (modE drop_pumps)
     (bindE (getE (\<lambda>s. (hvalues (en_movables s), hvalues (en_flyables s), hvalues (en_pausables s))))
       (\<lambda>(movables, flyables, pausables).
        seqE (stop_walk movables)
        (seqE (stop_walk flyables)
        (seqE (forE pausables (\<lambda>d. ignoreE (unit_call ''pause'' d)))
              (record_interruption interruption)))))"

definition restore_monitors :: "unit eng" where
  "restore_monitors =
     bindE (getE (\<lambda>s. concat (map (\<lambda>(run, sl). map (Pair run) (hvalues (rn_monitored sl))) (en_runs s)))) (\<lambda>specs.
       forE specs (\<lambda>(run, spec). ignoreE (start_monitor run (mon_stream spec) (mon_obj spec))))"

text \<open>The cache becomes the replay; every open run rolls back when there is something to replay.\<close>

definition arm_rewind :: "engine \<Rightarrow> engine" where
  "arm_rewind s =
     (let cache = en_msg_cache s;
          s1 = s\<lparr> en_msg_cache := [] \<rparr>;
          s2 = (if cache = [] then s1
                else s1\<lparr> en_runs := hmap_values (\<lambda>sl. sl\<lparr> rn_bundler := bundler_rewind (rn_bundler sl),
                                                       rn_bundle_asset_objs := [] \<rparr>) (en_runs s1) \<rparr>)
      in s2\<lparr> en_replay_queue := en_replay_queue s2 @ cache \<rparr>)"

definition on_resume :: "unit eng" where
  "on_resume =
     seqE (modE arm_rewind)
     (bindE (getE (\<lambda>s. hvalues (en_pausables s))) (\<lambda>pausables.
      seqE (forE pausables (\<lambda>d. ignoreE (unit_call ''resume'' d)))
      (seqE restore_monitors (record_interruption ''resume''))))"

definition ack_pauseE :: "u64 \<Rightarrow> u64 eng" where
  "ack_pauseE pause_seen = (\<lambda>s.
     let (seen, c) = ack_pause pause_seen (en_control s) in (Ok seen, s\<lparr> en_control := c \<rparr>))"

definition take_suspension :: "Suspension option eng" where
  "take_suspension = (\<lambda>s.
     (Ok (rc_pending_suspend (ct_ctl (en_control s))),
      upd_control (upd_ctl (\<lambda>k. k\<lparr> rc_pending_suspend := None \<rparr>)) s))"

text \<open>The armed \<open>permit\<close> notification is ready once a wake has happened since \<open>armed\<close>.\<close>

definition await_permit :: "nat \<Rightarrow> unit eng" where
  "await_permit armed = (\<lambda>s.
     if \<not> rc_is_paused (ct_ctl (en_control s)) \<or> rc_permit (ct_ctl (en_control s)) \<noteq> armed then (Ok (), s)
     else
       let s1 = push (Parked 1) s;
           s2 = fold apply_request (fst (w_park (en_world s1) (en_trace s1) ParkPermit)) s1
       in (if rc_permit (ct_ctl (en_control s2)) = armed then Hang else Ok (), s2))"

definition suspend_plan :: "nat \<Rightarrow> nat option \<Rightarrow> unit eng" where
  "suspend_plan n k =
     (case k of
        None \<Rightarrow> retE ()
      | Some k \<Rightarrow> bindE (getE (\<lambda>s. w_suspend_plan (en_world s) k)) (\<lambda>p. run_injected_plan n p None))"

fun pause_gate :: "nat \<Rightarrow> u64 \<Rightarrow> u64 \<Rightarrow> u64 eng" where
  "pause_gate 0 thrown_seq pause_seen = liftE Hang"
| "pause_gate (Suc n) thrown_seq pause_seen =
     bindE (getE (\<lambda>s. pause_pending pause_seen (en_control s))) (\<lambda>pending.
     if \<not> pending then retE pause_seen
     else
       bindE (getE (\<lambda>s. rc_permit (ct_ctl (en_control s)))) (\<lambda>armed.
       bindE (ack_pauseE pause_seen) (\<lambda>seen1.
       bindE take_suspension (\<lambda>susp.
       seqE (on_pause_enter (case susp of None \<Rightarrow> ''pause'' | Some u \<Rightarrow> su_justification u))
       (seqE (suspend_plan n (case susp of None \<Rightarrow> None | Some u \<Rightarrow> su_pre_plan u))
       (seqE (await_permit armed)
       (bindE (ack_pauseE seen1) (\<lambda>seen2.
        bindE (getE (\<lambda>s. interrupt_pending thrown_seq (en_control s))) (\<lambda>interrupted.
        if interrupted then seqE restore_monitors (retE seen2)
        else
          seqE on_resume
          (seqE (suspend_plan n (case susp of None \<Rightarrow> None | Some u \<Rightarrow> su_post_plan u))
                (pause_gate n thrown_seq seen2)))))))))))"

section \<open>The loop\<close>

record RunResult =
  rr_run_uids :: "string list"
  rr_exit_status :: string
  rr_interrupted :: bool
  rr_reason :: string
  rr_exception :: "BsrsError option"

definition build_result :: "string list \<Rightarrow> string \<Rightarrow> BsrsError option \<Rightarrow> RunResult eng" where
  "build_result run_uids exit_status err =
     getE (\<lambda>s. let c = en_control s in
       \<lparr> rr_run_uids = run_uids, rr_exit_status = exit_status,
         rr_interrupted = (exit_status = ''fail'' \<or> ct_is_halting c \<or> ct_is_stopping c \<or> ct_is_aborting c),
         rr_reason = (case err of Some e \<Rightarrow> w_error_text (en_world s) e
                      | None \<Rightarrow> (case stop_reason c of None \<Rightarrow> '''' | Some r \<Rightarrow> r)),
         rr_exception = err \<rparr>)"

definition end_interrupted :: "string list \<Rightarrow> string \<Rightarrow> RunResult eng" where
  "end_interrupted run_uids exit_status =
     bindE (getE (\<lambda>s. stop_reason (en_control s))) (\<lambda>reason.
     seqE (drain_and_close exit_status reason) (build_result run_uids exit_status None))"

definition end_failed :: "string list \<Rightarrow> BsrsError \<Rightarrow> RunResult eng" where
  "end_failed run_uids e =
     bindE (getE (\<lambda>s. w_error_text (en_world s) e)) (\<lambda>text.
     seqE (drain_and_close ''fail'' (Some text)) (build_result run_uids ''fail'' (Some e)))"

definition end_plan :: "string list \<Rightarrow> RunResult eng" where
  "end_plan run_uids =
     bindE (getE any_run_open) (\<lambda>still_open.
     if still_open then seqE (drain_and_close ''success'' None) (build_result run_uids ''success'' None)
     else build_result run_uids (if run_uids = [] then ''no-run'' else ''success'') None)"

definition take_interruptE :: "u64 \<Rightarrow> (InterruptRequest option \<times> u64) eng" where
  "take_interruptE thrown_seq = (\<lambda>s.
     let (r, seq, c) = take_interrupt thrown_seq (en_control s) in (Ok (r, seq), s\<lparr> en_control := c \<rparr>))"

text \<open>What one handled message amounts to.\<close>

datatype step_result =
    Handled "string option" | Bounced | HaltedNow | Threw Thrown

definition handle_step :: "Msg \<Rightarrow> u64 \<Rightarrow> u64 \<Rightarrow> (step_result \<times> u64) eng" where
  "handle_step m thrown_seq pause_seen = (\<lambda>s.
     case raised m of
       Some t \<Rightarrow> (Ok (Threw t, thrown_seq), s)
     | None \<Rightarrow>
         (case handle m s of
            (Ok uid, s1) \<Rightarrow> (Ok (Handled uid, thrown_seq), s1)
          | (Err e, s1) \<Rightarrow>
              if e \<noteq> Cancelled then (Ok (Threw (ThrownError e), thrown_seq), s1)
              else bindE (take_interruptE thrown_seq) (\<lambda>(req, seq).
                case req of
                  None \<Rightarrow> bindE (getE (\<lambda>s. pause_pending pause_seen (en_control s))) (\<lambda>p.
                            retE (if p then Bounced else Threw (ThrownError Cancelled), seq))
                | Some HaltRequest \<Rightarrow> retE (HaltedNow, seq)
                | Some (ThrowRequest kind) \<Rightarrow>
                    bindE (getE (\<lambda>s. stop_reason (en_control s))) (\<lambda>r.
                      retE (Threw (ThrownInterrupt kind r), seq))) s1
          | (Panic p, s1) \<Rightarrow> (Panic p, s1)
          | (Hang, s1) \<Rightarrow> (Hang, s1)))"

definition end_thrown :: "string list \<Rightarrow> Thrown \<Rightarrow> RunResult eng" where
  "end_thrown run_uids thrown =
     (case thrown of
        ThrownInterrupt kind _ \<Rightarrow> end_interrupted run_uids (interrupt_exit_status kind)
      | ThrownError e \<Rightarrow> end_failed run_uids e)"

definition msg_hook :: "Msg \<Rightarrow> unit eng" where
  "msg_hook m = modE (\<lambda>s. if en_msg_hook s then push (Hooked ''msg'' (obj_name m) None) s else s)"

fun run_loop :: "nat \<Rightarrow> plan \<Rightarrow> MsgResult option \<Rightarrow> u64 \<Rightarrow> u64 \<Rightarrow> string list \<Rightarrow> RunResult eng" where
  "run_loop 0 p reply thrown_seq pause_seen run_uids = liftE Hang"
| "run_loop (Suc n) p reply thrown_seq pause_seen run_uids =
     bindE (pause_gate n thrown_seq pause_seen) (\<lambda>seen.
     bindE (take_interruptE thrown_seq) (\<lambda>(req, seq).
     case req of
       Some HaltRequest \<Rightarrow> end_interrupted run_uids ''halt''
     | Some (ThrowRequest kind) \<Rightarrow>
         bindE (getE (\<lambda>s. stop_reason (en_control s))) (\<lambda>r.
         bindE (throw_into_plan (ThrownInterrupt kind r)) (\<lambda>caught.
           if caught then run_loop n p reply seq seen run_uids
           else end_interrupted run_uids (interrupt_exit_status kind)))
     | None \<Rightarrow>
         bindE (pull_msg p reply) (\<lambda>next_item.
         case next_item of
           None \<Rightarrow> end_plan run_uids
         | Some (m, owed, p1) \<Rightarrow>
             seqE (msg_hook m)
             (bindE (handle_step m seq seen) (\<lambda>(res, seq1).
              case res of
                Handled uid \<Rightarrow>
                  (let uids = run_uids @ (case uid of None \<Rightarrow> [] | Some u \<Rightarrow> [u])
                   in if owed then bindE take_msg_result (\<lambda>r. run_loop n p1 (Some r) seq1 seen uids)
                      else run_loop n p1 reply seq1 seen uids)
              | Bounced \<Rightarrow> run_loop n p1 (if owed then None else reply) seq1 seen run_uids
              | HaltedNow \<Rightarrow> end_interrupted run_uids ''halt''
              | Threw thrown \<Rightarrow>
                  bindE (throw_into_plan thrown) (\<lambda>caught.
                    if caught then run_loop n p1 (if owed then None else reply) seq1 seen run_uids
                    else end_thrown run_uids thrown))))))"

section \<open>Entry points\<close>

text \<open>The claim and the reset that precede the loop.\<close>

definition start_run :: "(u64 \<times> u64) eng" where
  "start_run = (\<lambda>s.
     case claim_run (en_control s) of
       Ok c \<Rightarrow>
         (let s1 = s\<lparr> en_control := c \<rparr>;
              s2 = (if en_before_plan s1 then push (Hooked ''before_plan'' None None) s1 else s1);
              (thrown_seq, pause_seen, c2) = begin_run (en_control s2)
          in (Ok (thrown_seq, pause_seen),
              s2\<lparr> en_control := c2,
                  en_temp_subscribers := en_temp_subscribers s2 @ en_staged_temp_subs s2,
                  en_staged_temp_subs := [] \<rparr>))
     | Err e \<Rightarrow> (Err e, s)
     | Panic p \<Rightarrow> (Panic p, s)
     | Hang \<Rightarrow> (Hang, s))"

text \<open>ENG-12: wait for every suspender already tripped.\<close>

definition suspender_gate :: "unit eng" where
  "suspender_gate = (\<lambda>s.
     let tripped = filter (w_tripped (en_world s) (en_trace s)) (hvalues (en_suspenders s))
     in if tripped = [] then (Ok (), s)
        else let s1 = push (Parked 2) s;
                 (rs, res) = w_park (en_world s1) (en_trace s1) (ParkSuspenders tripped);
                 s2 = fold apply_request rs s1
             in (if res = Never then Hang else Ok (), s2))"

definition take_registers ::
  "engine \<Rightarrow> (device list \<times> device list \<times> device list \<times> subscription_id list) \<times> engine" where
  "take_registers s =
     ((en_staged s, hvalues (en_movables s), hvalues (en_flyables s), en_temp_subscribers s),
      s\<lparr> en_staged := [], en_movables := [], en_flyables := [], en_runs := [], en_contingency := [],
         en_temp_subscribers := [], en_pausables := [] \<rparr>)"

definition finish_run :: "engine \<Rightarrow> engine" where
  "finish_run s =
     (let s1 = (upd_control end_run s)\<lparr> en_per_call_md := [] \<rparr>
      in if en_after_plan s1 then push (Hooked ''after_plan'' None None) s1 else s1)"

definition cleanup :: "unit eng" where
  "cleanup = (\<lambda>s.
     let ((staged, movables, flyables, temp_subs), s1) = take_registers s
     in seqE (modE (fold unsubscribe temp_subs))
        (seqE (stop_walk movables)
        (seqE (stop_walk flyables)
        (seqE (forE staged (\<lambda>d. ignoreE (unit_call ''unstage'' d)))
              (modE finish_run)))) s1)"

definition run_async :: "nat \<Rightarrow> plan \<Rightarrow> RunResult eng" where
  "run_async n p =
     bindE start_run (\<lambda>(thrown_seq, pause_seen).
     bindE (getE (\<lambda>s. fold (w_preprocess (en_world s)) (en_preprocessors s) p)) (\<lambda>p1.
     seqE suspender_gate
     (\<lambda>s. case run_loop n p1 None thrown_seq pause_seen [] s of
            (Ok r, s1) \<Rightarrow> bindE cleanup (\<lambda>_. retE r) s1
          | (Err e, s1) \<Rightarrow> bindE cleanup (\<lambda>_. failE e) s1
          | (Panic x, s1) \<Rightarrow> (Panic x, s1)
          | (Hang, s1) \<Rightarrow> (Hang, s1))))"

definition run_async_with :: "nat \<Rightarrow> plan \<Rightarrow> md \<Rightarrow> callback_id list \<Rightarrow> RunResult eng" where
  "run_async_with n p md subs =
     seqE (modE (\<lambda>s. s\<lparr> en_per_call_md := md \<rparr>))
     (bindE (mapE subs (subscribe_filtered FAll)) (\<lambda>staged_ids.
      seqE (modE (\<lambda>s. s\<lparr> en_staged_temp_subs := staged_ids \<rparr>))
           (run_async n p)))"

end
