(* ===== verification/Engine_Laws.thy ===== *)
theory Engine_Laws
  imports RunLoop
begin

text \<open>
  The calculus the engine's properties are proved with. \<open>keeps view m\<close> says that the operation
  \<open>m\<close> changes nothing of \<open>view\<close>, whatever its outcome; the rules for the monad are collected in
  \<open>preserved\<close>. The locale \<open>request_frame\<close> states when a view is blind to what other tasks do at an
  await point; it is interpreted on \<open>base\<close> (everything but the trace, the uid counter, the control
  plane and the runs) and on \<open>ledger\<close> (the runs that are open, and the start and stop documents
  emitted so far).
\<close>

definition keeps :: "(engine \<Rightarrow> 'v) \<Rightarrow> 'a eng \<Rightarrow> bool" where
  "keeps view m \<longleftrightarrow> (\<forall>s. view (snd (m s)) = view s)"

lemma keepsD: "keeps view m \<Longrightarrow> view (snd (m s)) = view s"
  by (simp add: keeps_def)

lemma keepsI: "(\<And>s. view (snd (m s)) = view s) \<Longrightarrow> keeps view m"
  by (simp add: keeps_def)

lemma keeps_retE [preserved]: "keeps view (retE x)"
  by (simp add: keeps_def retE_def)

lemma keeps_failE [preserved]: "keeps view (failE e)"
  by (simp add: keeps_def failE_def)

lemma keeps_liftE [preserved]: "keeps view (liftE r)"
  by (simp add: keeps_def liftE_def)

lemma keeps_getE [preserved]: "keeps view (getE f)"
  by (simp add: keeps_def getE_def)

lemma keeps_guardE [preserved]: "keeps view (guardE P e)"
  by (simp add: keeps_def guardE_def)

lemma keeps_bindE [preserved]:
  assumes "keeps view m" and "\<And>x. keeps view (f x)"
  shows "keeps view (bindE m f)"
  unfolding keeps_def bindE_def
proof
  fix s
  show "view (snd (case m s of (Ok x, s1) \<Rightarrow> f x s1 | (Err e, s1) \<Rightarrow> (Err e, s1)
      | (Panic p, s1) \<Rightarrow> (Panic p, s1) | (Hang, s1) \<Rightarrow> (Hang, s1))) = view s"
    using keepsD [OF assms(1), of s] keepsD [OF assms(2)]
    by (cases "m s"; cases "fst (m s)") auto
qed

lemma keeps_seqE [preserved]: "keeps view m \<Longrightarrow> keeps view n \<Longrightarrow> keeps view (seqE m n)"
  by (simp add: seqE_def keeps_bindE)

lemma keeps_ignoreE [preserved]:
  assumes "keeps view m"
  shows "keeps view (ignoreE m)"
  unfolding keeps_def ignoreE_def
proof
  fix s
  show "view (snd (case m s of (Ok x, s1) \<Rightarrow> (Ok (), s1) | (Err e, s1) \<Rightarrow> (Ok (), s1)
      | (Panic p, s1) \<Rightarrow> (Panic p, s1) | (Hang, s1) \<Rightarrow> (Hang, s1))) = view s"
    using keepsD [OF assms, of s] by (cases "m s"; cases "fst (m s)") auto
qed

lemma keeps_forE [preserved]: "(\<And>x. keeps view (f x)) \<Longrightarrow> keeps view (forE xs f)"
  by (induction xs) (simp_all add: preserved)

lemma keeps_mapE [preserved]: "(\<And>x. keeps view (f x)) \<Longrightarrow> keeps view (mapE xs f)"
  by (induction xs) (simp_all add: preserved)

lemma keeps_modE: "(\<And>s. view (f s) = view s) \<Longrightarrow> keeps view (modE f)"
  by (simp add: keeps_def modE_def)

lemma keeps_if [preserved]: "keeps view m \<Longrightarrow> keeps view n \<Longrightarrow> keeps view (if b then m else n)"
  by simp

lemma keeps_case_option [preserved]:
  "keeps view m \<Longrightarrow> (\<And>x. keeps view (f x)) \<Longrightarrow> keeps view (case x of None \<Rightarrow> m | Some y \<Rightarrow> f y)"
  by (cases x) auto

lemma keeps_case_prod [preserved]:
  "(\<And>x y. keeps view (f x y)) \<Longrightarrow> keeps view (case p of (x, y) \<Rightarrow> f x y)"
  by (cases p) auto

lemma keeps_Let [preserved]: "(\<And>x. keeps view (f x)) \<Longrightarrow> keeps view (let x = e in f x)"
  by simp

lemma keeps_nowE [preserved]: "keeps view nowE"
  by (simp add: nowE_def preserved)

section \<open>Successful runs of the monad\<close>

lemma bindE_Ok: "bindE m f s = (Ok y, s2) \<longleftrightarrow> (\<exists>x s1. m s = (Ok x, s1) \<and> f x s1 = (Ok y, s2))"
  by (auto simp: bindE_def split: prod.splits outcome.splits)

lemma seqE_Ok: "seqE m n s = (Ok y, s2) \<longleftrightarrow> (\<exists>x s1. m s = (Ok x, s1) \<and> n s1 = (Ok y, s2))"
  by (simp add: seqE_def bindE_Ok)

lemma leaf_Ok:
  "retE x s = (Ok y, s1) \<longleftrightarrow> y = x \<and> s1 = s" "getE f s = (Ok y, s1) \<longleftrightarrow> y = f s \<and> s1 = s"
  "modE g s = (Ok u, s1) \<longleftrightarrow> s1 = g s" "liftE r s = (Ok y, s1) \<longleftrightarrow> r = Ok y \<and> s1 = s"
  "guardE P e s = (Ok u, s1) \<longleftrightarrow> P s \<and> s1 = s" "failE e s \<noteq> (Ok y, s1)"
  by (auto simp: retE_def getE_def modE_def liftE_def guardE_def failE_def)

lemma bind_getE: "bindE (getE f) h s = h (f s) s"
  by (simp add: bindE_def getE_def)

lemma seq_modE: "seqE (modE f) m s = m (f s)"
  by (simp add: seqE_def bindE_def modE_def)

lemmas runs_ok = bindE_Ok seqE_Ok leaf_Ok

section \<open>Effects of other tasks\<close>

text \<open>The effects an await point of a handler may have, apart from the documents it emits.\<close>

fun call_effect :: "effect \<Rightarrow> bool" where
  "call_effect (Emitted _) = False"
| "call_effect _ = True"

locale request_frame =
  fixes view :: "engine \<Rightarrow> 'v"
  assumes view_request: "view (apply_request r s) = view s"
    and view_push: "call_effect e \<Longrightarrow> view (push e s) = view s"
begin

lemma view_requests: "view (fold apply_request rs s) = view s"
  by (induction rs arbitrary: s) (simp_all add: view_request)

lemma view_awaitE: "view (snd (awaitE e s)) = view (push e s)"
  by (simp add: awaitE_def Let_def view_requests)

lemma keeps_awaitE: "call_effect e \<Longrightarrow> keeps view (awaitE e)"
  by (simp add: keeps_def view_awaitE view_push)

lemma keeps_callE: "keeps view (callE m d resp)"
proof (rule keepsI)
  fix s
  show "view (snd (callE m d resp s)) = view s"
    using keepsD [OF keeps_bindE [OF keeps_awaitE keeps_liftE], of "Called m d"]
    by (simp add: callE_def Let_def)
qed

lemma keeps_parkE: "keeps view (parkE p k)"
  by (rule keepsI) (simp add: parkE_def Let_def split_beta view_requests view_push)

lemma view_dispatch: "view (dispatch_subscribers doc s) = view s"
proof -
  have "view (fold (\<lambda>i. push (Notified i doc)) is s) = view s" for "is"
    by (induction "is" arbitrary: s) (simp_all add: view_push)
  then show ?thesis by (simp add: dispatch_subscribers_def)
qed

lemma view_deliverE: "view (snd (deliverE e doc s)) = view (push e s)"
  using view_awaitE [of e s]
  by (simp add: deliverE_def seqE_def bindE_def modE_def awaitE_def Let_def view_dispatch)

lemma keeps_forward: "keeps view (forward doc)"
  by (rule keepsI) (simp add: forward_def view_deliverE view_push)

lemma keeps_unit_call: "keeps view (unit_call m d)"
  by (simp add: unit_call_def keeps_callE)

lemma keeps_stop_walk: "keeps view (stop_walk ds)"
  by (simp add: stop_walk_def keeps_forE keeps_ignoreE keeps_unit_call)

lemmas frame = keeps_callE keeps_parkE keeps_forward keeps_unit_call keeps_stop_walk

end

section \<open>The registers\<close>

definition base :: "engine \<Rightarrow> engine" where
  "base s = s\<lparr> en_trace := [], en_uids := 0, en_control := control_new, en_runs := [] \<rparr>"

lemma base_simps [simp]:
  "base (s\<lparr> en_trace := t \<rparr>) = base s" "base (s\<lparr> en_uids := n \<rparr>) = base s"
  "base (s\<lparr> en_control := c \<rparr>) = base s" "base (s\<lparr> en_runs := r \<rparr>) = base s"
  "base (push e s) = base s" "base (put_slot run sl s) = base s" "base (upd_control f s) = base s"
  "base (upd_slot run g s) = base s" "base (upd_bundler run h s) = base s"
  "base (upd_all_bundlers h s) = base s"
  by (simp_all add: base_def push_def put_slot_def upd_control_def upd_slot_def upd_bundler_def
      upd_all_bundlers_def split: option.splits)

lemma base_dispatch [simp]: "base (dispatch_subscribers doc s) = base s"
proof -
  have "base (fold (\<lambda>i. push (Notified i doc)) is s) = base s" for "is"
    by (induction "is" arbitrary: s) simp_all
  then show ?thesis by (simp add: dispatch_subscribers_def)
qed

lemma base_pump [simp]: "base (pump_event run task reading s) = base s"
  by (simp add: pump_event_def Let_def split_beta split: option.splits)

lemma base_request: "base (apply_request r s) = base s"
  by (cases r) (simp_all add: deliver_reading_def split: option.splits)

interpretation rg: request_frame base
  by unfold_locales (simp_all add: base_request)

lemma base_fields:
  assumes "base s = base t"
  shows "en_msg_cache s = en_msg_cache t" "en_replay_queue s = en_replay_queue t"
    "en_rewindable s = en_rewindable t" "en_groups s = en_groups t" "en_staged s = en_staged t"
    "en_world s = en_world t" "en_subscribers s = en_subscribers t" "en_md s = en_md t"
    "en_movables s = en_movables t" "en_flyables s = en_flyables t" "en_contingency s = en_contingency t"
    "en_per_call_md s = en_per_call_md t"
  using assms by (cases s; cases t; simp add: base_def)+

section \<open>The ledger of runs\<close>

definition starts :: "effect list \<Rightarrow> string list" where
  "starts t = filter_map (\<lambda>e. case e of Emitted (DocStart d) \<Rightarrow> Some (rs_uid d) | _ \<Rightarrow> None) t"

definition stops :: "effect list \<Rightarrow> string list" where
  "stops t = filter_map (\<lambda>e. case e of Emitted (DocStop d) \<Rightarrow> Some (stop_run_start d) | _ \<Rightarrow> None) t"

definition slot_uids :: "RunSlot \<Rightarrow> string \<times> string" where
  "slot_uids sl = (bd_start_uid (rn_bundler sl), rb_start_uid (bd_bundle (rn_bundler sl)))"

definition ledger :: "engine \<Rightarrow> (run_key \<times> string \<times> string) list \<times> string list \<times> string list" where
  "ledger s = (hmap_values slot_uids (en_runs s), starts (en_trace s), stops (en_trace s))"

lemma hmap_values_update:
  "hget m k = Some v \<Longrightarrow> f v' = f v \<Longrightarrow> hmap_values f (hput k v' m) = hmap_values f m"
  by (induction m) (auto simp: hmap_values_def)

lemma hmap_values_comp: "hmap_values f (hmap_values g m) = hmap_values (\<lambda>v. f (g v)) m"
  by (induction m) (auto simp: hmap_values_def)

lemma starts_push [simp]:
  "call_effect e \<Longrightarrow> starts (e # t) = starts t" "starts (Emitted (DocEvent ev) # t) = starts t"
  "starts (Emitted (DocDescriptor d) # t) = starts t"
  "starts (Emitted (DocStart st) # t) = rs_uid st # starts t"
  "starts (Emitted (DocStop sp) # t) = starts t"
  by (cases e) (auto simp: starts_def)

lemma stops_push [simp]:
  "call_effect e \<Longrightarrow> stops (e # t) = stops t" "stops (Emitted (DocEvent ev) # t) = stops t"
  "stops (Emitted (DocDescriptor d) # t) = stops t"
  "stops (Emitted (DocStart st) # t) = stops t"
  "stops (Emitted (DocStop sp) # t) = stop_run_start sp # stops t"
  by (cases e) (auto simp: stops_def)

lemma ledger_push [simp]:
  "call_effect e \<Longrightarrow> ledger (push e s) = ledger s"
  "ledger (push (Emitted (DocEvent ev)) s) = ledger s"
  "ledger (push (Emitted (DocDescriptor d)) s) = ledger s"
  by (simp_all add: ledger_def push_def)

lemma ledger_put_slot:
  "hget (en_runs s) run = Some sl \<Longrightarrow> slot_uids sl' = slot_uids sl \<Longrightarrow> ledger (put_slot run sl' s) = ledger s"
  by (simp add: ledger_def put_slot_def hmap_values_update)

lemma ledger_upd_slot:
  "(\<And>sl. slot_uids (f sl) = slot_uids sl) \<Longrightarrow> ledger (upd_slot run f s) = ledger s"
  by (auto simp: upd_slot_def ledger_put_slot split: option.splits)

lemma bundle_event_start [simp]: "rb_start_uid (snd (bundle_event b s d ts u t)) = rb_start_uid b"
  by (simp add: bundle_event_def Let_def split: option.splits)

lemma ledger_dispatch [simp]: "ledger (dispatch_subscribers doc s) = ledger s"
proof -
  have "ledger (fold (\<lambda>i. push (Notified i doc)) is s) = ledger s" for "is"
    by (induction "is" arbitrary: s) simp_all
  then show ?thesis by (simp add: dispatch_subscribers_def)
qed

lemma ledger_frame [simp]:
  "ledger (s\<lparr> en_uids := n \<rparr>) = ledger s" "ledger (s\<lparr> en_control := c \<rparr>) = ledger s"
  "ledger (upd_control f s) = ledger s"
  by (simp_all add: ledger_def upd_control_def)

lemma ledger_pump [simp]: "ledger (pump_event run task reading s) = ledger s"
proof (cases "hget (en_runs s) run")
  case None
  then show ?thesis by (simp add: pump_event_def)
next
  case (Some sl)
  then have "ledger (put_slot run (sl\<lparr> rn_bundler := (rn_bundler sl)\<lparr> bd_bundle :=
        snd (bundle_event (bd_bundle (rn_bundler sl)) st d ts u t) \<rparr> \<rparr>) (s\<lparr> en_uids := n \<rparr>)) = ledger s" for st d ts u t n
    by (subst ledger_put_slot [where sl = sl]) (simp_all add: slot_uids_def)
  then show ?thesis using Some by (simp add: pump_event_def Let_def split_beta split: option.splits)
qed

lemma ledger_request: "ledger (apply_request r s) = ledger s"
  by (cases r) (simp_all add: deliver_reading_def split: option.splits)

interpretation ld: request_frame ledger
  by unfold_locales (simp_all add: ledger_request)

lemma ledger_registers [simp]:
  "ledger (s\<lparr> en_monitor_counter := a \<rparr>) = ledger s" "ledger (s\<lparr> en_groups := b \<rparr>) = ledger s"
  "ledger (s\<lparr> en_staged := c \<rparr>) = ledger s" "ledger (s\<lparr> en_movables := d \<rparr>) = ledger s"
  "ledger (s\<lparr> en_flyables := d \<rparr>) = ledger s" "ledger (s\<lparr> en_pausables := d \<rparr>) = ledger s"
  "ledger (s\<lparr> en_temp_subscribers := e \<rparr>) = ledger s" "ledger (s\<lparr> en_contingency := f \<rparr>) = ledger s"
  "ledger (s\<lparr> en_sinks := g \<rparr>) = ledger s" "ledger (s\<lparr> en_msg_cache := h \<rparr>) = ledger s"
  "ledger (s\<lparr> en_replay_queue := h \<rparr>) = ledger s" "ledger (s\<lparr> en_rewindable := i \<rparr>) = ledger s"
  "ledger (s\<lparr> en_suspenders := j \<rparr>) = ledger s" "ledger (s\<lparr> en_md := k \<rparr>) = ledger s"
  "ledger (s\<lparr> en_scan_id := l \<rparr>) = ledger s" "ledger (s\<lparr> en_subscribers := m \<rparr>) = ledger s"
  "ledger (s\<lparr> en_sub_counter := n \<rparr>) = ledger s" "ledger (s\<lparr> en_last_msg_result := p \<rparr>) = ledger s"
  "ledger (s\<lparr> en_per_call_md := k \<rparr>) = ledger s" "ledger (s\<lparr> en_staged_temp_subs := e \<rparr>) = ledger s"
  by (simp_all add: ledger_def)

lemma ledger_upd_bundler:
  "(\<And>b. bd_start_uid (f b) = bd_start_uid b \<and> rb_start_uid (bd_bundle (f b)) = rb_start_uid (bd_bundle b)) \<Longrightarrow>
   ledger (upd_bundler run f s) = ledger s"
  by (simp add: upd_bundler_def ledger_upd_slot slot_uids_def)

lemma ledger_upd_all:
  "(\<And>b. bd_start_uid (f b) = bd_start_uid b \<and> rb_start_uid (bd_bundle (f b)) = rb_start_uid (bd_bundle b)) \<Longrightarrow>
   ledger (upd_all_bundlers f s) = ledger s"
proof -
  assume kept: "\<And>b. bd_start_uid (f b) = bd_start_uid b \<and> rb_start_uid (bd_bundle (f b)) = rb_start_uid (bd_bundle b)"
  have "(\<lambda>sl. slot_uids (sl\<lparr> rn_bundler := f (rn_bundler sl) \<rparr>)) = slot_uids"
    by (rule ext) (simp add: slot_uids_def kept)
  then show ?thesis by (simp add: upd_all_bundlers_def ledger_def hmap_values_comp)
qed

section \<open>The bundler keeps its run's uid\<close>

definition keeps_uid :: "(RunBundler \<Rightarrow> RunBundler) \<Rightarrow> bool" where
  "keeps_uid f \<longleftrightarrow> (\<forall>b. bd_start_uid (f b) = bd_start_uid b \<and> rb_start_uid (bd_bundle (f b)) = rb_start_uid (bd_bundle b))"

lemma prepare_stream_uid [simp]:
  "rb_start_uid (bd_bundle (snd (prepare_stream b s objs u t))) = rb_start_uid (bd_bundle b)"
  by (simp add: prepare_stream_def Let_def split_beta bundle_descriptor_frame)

lemma install_one_start:
  "bd_start_uid (install_one d b) = bd_start_uid b \<and> rb_start_uid (bd_bundle (install_one d b)) = rb_start_uid (bd_bundle b)"
  by (simp add: install_one_def install_descriptor_def split: option.splits)

lemma bundler_ops_uid [simp]:
  "keeps_uid bundler_reset_checkpoint" "keeps_uid bundler_clear_checkpoint" "keeps_uid bundler_rewind"
  "keeps_uid (\<lambda>b. cache_configuration b n c)" "keeps_uid (\<lambda>b. record_declared_stream b ns st)"
  "keeps_uid (\<lambda>b. install_reconfigured b ds)" "keeps_uid (\<lambda>b. snd (declare_stream b st objs u t))"
  "keeps_uid (\<lambda>b. snd (bundler_save b u v t))" "keeps_uid (\<lambda>b. snd (drop_bundle b))"
  "keeps_uid (\<lambda>b. b\<lparr> bd_bundle := snd (advance_seq (bd_bundle b) st k) \<rparr>)"
  "keeps_uid (\<lambda>b. b\<lparr> bd_stream_resource_data_keys := reg \<rparr>)"
proof -
  show "keeps_uid (\<lambda>b. install_reconfigured b ds)"
    unfolding keeps_uid_def install_reconfigured_def
    by (intro allI, induction ds) (auto simp: install_one_start intro: trans)
next
  show "keeps_uid (\<lambda>b. snd (bundler_save b u v t))"
    by (auto simp: keeps_uid_def bundler_save_def Let_def split_beta split: option.splits)
qed (auto simp: keeps_uid_def bundler_reset_checkpoint_def bundler_clear_checkpoint_def bundler_rewind_def
      cache_configuration_def record_declared_stream_def declare_stream_def drop_bundle_def
      restore_seq_nums_def advance_seq_def Let_def split: option.splits)

lemmas ops_uid_at [simp] = bundler_ops_uid [unfolded keeps_uid_def, rule_format]

lemma ledger_bundler [simp]:
  "keeps_uid f \<Longrightarrow> ledger (upd_bundler run f s) = ledger s"
  "keeps_uid f \<Longrightarrow> ledger (upd_all_bundlers f s) = ledger s"
  by (simp_all add: keeps_uid_def ledger_upd_bundler ledger_upd_all)

lemma ledger_reset_checkpoint [simp]: "ledger (reset_checkpoint_state s) = ledger s"
  by (simp add: reset_checkpoint_state_def)

section \<open>Handlers that open and close no run keep the ledger\<close>

lemma keeps_set_result [preserved]: "keeps ledger (set_result r)"
  by (simp add: set_result_def keeps_modE)

lemma keeps_broadcast [preserved]:
  "is_event doc \<or> is_descriptor doc \<Longrightarrow> keeps ledger (broadcast doc)"
  by (rule keepsI) (cases doc; simp add: broadcast_def ld.view_deliverE is_event_def is_descriptor_def)

lemma keeps_broadcast_doc [preserved]:
  "keeps ledger (broadcast (DocEvent e))" "keeps ledger (broadcast (DocDescriptor d))"
  by (simp_all add: keeps_broadcast is_event_def is_descriptor_def)

lemma keeps_read_configuration [preserved]: "keeps ledger (read_object_configuration obj)"
  by (simp add: read_object_configuration_def preserved ld.frame)

lemma keeps_ensure_configuration [preserved]: "keeps ledger (ensure_object_configuration run obj)"
  by (simp add: ensure_object_configuration_def preserved keeps_modE split: option.splits)

lemma keeps_stream_object [preserved]: "keeps ledger (stream_object obj dks c)"
  by (simp add: stream_object_def preserved)

lemma keeps_declare_on [preserved]: "keeps ledger (declare_on run msg st objs)"
proof (rule keepsI)
  fix s
  show "ledger (snd (declare_on run msg st objs s)) = ledger s"
  proof (cases "hget (en_runs s) run")
    case (Some sl)
    then show ?thesis
      by (simp add: declare_on_def Let_def split_beta slot_uids_def ledger_put_slot [where sl = sl])
  qed (simp add: declare_on_def)
qed

lemma keeps_event_on [preserved]: "keeps ledger (event_on run st d ts)"
  by (rule keepsI) (auto simp: event_on_def Let_def split_beta slot_uids_def ledger_put_slot split: option.splits)

lemma keeps_h_create [preserved]: "keeps ledger (h_create run st)"
  by (rule keepsI)
    (auto simp: h_create_def bundler_create_def slot_uids_def ledger_put_slot split: option.splits outcome.splits)

lemma keeps_save_slot [preserved]: "keeps ledger (save_slot run)"
proof (rule keepsI)
  fix s
  show "ledger (snd (save_slot run s)) = ledger s"
  proof (cases "hget (en_runs s) run")
    case (Some sl)
    then show ?thesis
      by (auto simp: save_slot_def Let_def split_beta slot_uids_def
          ledger_put_slot [where sl = sl] split: outcome.splits)
  qed (simp add: save_slot_def)
qed

lemma keeps_pack_on [preserved]: "keeps ledger (pack_on run msg n st docs)"
  by (rule keepsI) (auto simp: pack_on_def Let_def split_beta slot_uids_def ledger_put_slot split: option.splits)

lemma keeps_emit_save:
  "\<forall>d\<in>set docs. is_event d \<or> is_descriptor d \<Longrightarrow> keeps ledger (emit_save docs assets)"
proof -
  have for_docs: "\<forall>d\<in>set ds. is_event d \<or> is_descriptor d \<Longrightarrow> keeps ledger (forE ds broadcast)" for ds
    by (induction ds) (simp_all add: preserved)
  assume "\<forall>d\<in>set docs. is_event d \<or> is_descriptor d"
  then have "keeps ledger (forE (filter is_descriptor docs) broadcast)"
    and "keeps ledger (forE (filter (\<lambda>d. \<not> is_descriptor d) docs) broadcast)"
    by (auto intro!: for_docs)
  then show ?thesis by (simp add: emit_save_def keeps_seqE keeps_forE ld.keeps_forward)
qed

lemma bundler_save_docs:
  "fst (bundler_save b u v t) = Ok docs \<Longrightarrow> \<forall>d\<in>set docs. is_event d \<or> is_descriptor d"
  by (auto simp: bundler_save_def Let_def split_beta is_event_def is_descriptor_def split: option.splits if_splits)

lemma save_slot_docs:
  "save_slot run s = (Ok (docs, st, objs), s') \<Longrightarrow> \<forall>d\<in>set docs. is_event d \<or> is_descriptor d"
  by (auto simp: save_slot_def Let_def split_beta split: option.splits outcome.splits dest: bundler_save_docs)

lemma keeps_drain_assets [preserved]: "keeps ledger (drain_assets uid objs)"
  by (simp add: drain_assets_def preserved ld.frame)

lemma keeps_pack_save [preserved]: "keeps ledger (pack_save_assets run docs st assets)"
  by (simp add: pack_save_assets_def preserved Let_def split_beta)

lemma keeps_h_save [preserved]: "keeps ledger (h_save run)"
proof (rule keepsI)
  fix s
  obtain r s1 where one: "save_slot run s = (r, s1)" by fastforce
  have same: "ledger s1 = ledger s" using keepsD [OF keeps_save_slot, of run s] one by simp
  show "ledger (snd (h_save run s)) = ledger s"
  proof (cases r)
    case (Ok x)
    obtain docs st objs where x: "x = (docs, st, objs)" by (cases x)
    have docs: "\<forall>d\<in>set docs. is_event d \<or> is_descriptor d" using save_slot_docs one Ok x by blast
    have "keeps ledger (bindE (getE (\<lambda>s. case (bundler_of s run, st) of
               (Some b, Some st) \<Rightarrow> descriptor_uid b st | _ \<Rightarrow> None)) (\<lambda>duid.
         bindE (case duid of None \<Rightarrow> retE [] | Some uid \<Rightarrow> drain_assets uid objs) (\<lambda>assets.
         bindE (pack_save_assets run docs st assets) (\<lambda>packed. emit_save docs packed))))"
      using keeps_emit_save [OF docs] by (simp add: preserved)
    from keepsD [OF this, of s1] show ?thesis using same one Ok x by (simp add: h_save_def bindE_def)
  qed (use same one in \<open>simp_all add: h_save_def bindE_def\<close>)
qed

lemma keeps_h_drop [preserved]: "keeps ledger (h_drop run)"
proof (rule keepsI)
  fix s
  show "ledger (snd (h_drop run s)) = ledger s"
    by (auto simp: h_drop_def slot_uids_def split_beta ledger_put_slot split: option.splits outcome.splits)
qed

lemma keeps_describe_readable [preserved]: "keeps ledger (describe_readable run obj)"
  by (simp add: describe_readable_def preserved ld.frame)

lemma keeps_describe_collectable [preserved]: "keeps ledger (describe_collectable run st obj)"
  by (simp add: describe_collectable_def preserved ld.frame)

lemma keeps_describe_objs [preserved]: "keeps ledger (describe_stream_objs run st objs)"
  by (cases objs) (simp_all add: describe_stream_objs_def preserved)

lemma keeps_h_declare [preserved]: "keeps ledger (h_declare_stream run st objs)"
  by (simp add: h_declare_stream_def Let_def preserved keeps_modE)

lemma keeps_add_read [preserved]: "keeps ledger (add_read_on run obj ro rds tr)"
proof (rule keepsI)
  fix s
  show "ledger (snd (add_read_on run obj ro rds tr s)) = ledger s"
    by (auto simp: add_read_on_def add_read_def slot_uids_def ledger_put_slot split: option.splits)
qed

lemma keeps_h_read [preserved]: "keeps ledger (h_read run obj)"
  by (simp add: h_read_def preserved ld.frame)

lemma keeps_handle_status [preserved]: "keeps ledger (handle_status st grp)"
  by (simp add: handle_status_def preserved ld.frame keeps_modE split: option.splits)

lemma keeps_status_call [preserved]: "keeps ledger (status_call m obj grp)"
  by (simp add: status_call_def note_group_def preserved ld.frame)

lemma keeps_wait_group [preserved]: "keeps ledger (wait_group g e t)"
proof -
  have "keeps ledger (case (res, t) of
      (TimedOut, Some d) \<Rightarrow> if e then failE (Timeout d)
        else seqE (modE (\<lambda>s. s\<lparr> en_groups := happend g ms (en_groups s) \<rparr>)) (retE False)
    | _ \<Rightarrow> seqE (liftE (status_outcome res)) (retE True))" for res ms
    by (cases res; cases t) (simp_all add: preserved keeps_modE)
  then show ?thesis by (simp add: wait_group_def preserved ld.frame keeps_modE)
qed

lemma keeps_resolve_collect [preserved]: "keeps ledger (resolve_collect_stream run obj st)"
  by (rule keepsI) (auto simp: resolve_collect_stream_def Let_def split: option.splits)

lemma keeps_declare_collect [preserved]: "keeps ledger (declare_collect run obj c descs)"
  by (induction descs) (auto simp: preserved)

lemma keeps_collect_stream [preserved]: "keeps ledger (collect_stream_of run obj st)"
  by (cases st) (simp_all add: collect_stream_of_def preserved ld.frame split: list.splits)

lemma ledger_advance [simp]: "ledger (advance_on run st n s) = ledger s"
  by (simp add: advance_on_def)

lemma keeps_collect_assets [preserved]: "keeps ledger (collect_assets run obj st d)"
  by (simp add: collect_assets_def next_seq_on_def preserved ld.frame keeps_modE)

lemma keeps_emit_collected [preserved]: "keeps ledger (emit_collected run st d ts)"
  by (simp add: emit_collected_def preserved)

lemma keeps_collect [preserved]: "keeps ledger (collect_object run obj st)"
proof -
  have "keeps ledger (modE (upd_slot run (\<lambda>sl. sl\<lparr> rn_uncollected := f sl \<rparr>)))" for f
    by (simp add: keeps_modE ledger_upd_slot slot_uids_def)
  moreover have "keeps ledger (case (d, st) of (Some uid, Some st) \<Rightarrow> collect_assets run obj st uid | _ \<Rightarrow> retE ())"
    for d st by (cases d; cases st) (simp_all add: preserved)
  ultimately show ?thesis by (simp add: collect_object_def preserved ld.frame)
qed

lemma keeps_backstop [preserved]: "keeps ledger backstop_collect"
  by (simp add: backstop_collect_def preserved)

lemma keeps_declare_monitor [preserved]: "keeps ledger (declare_monitor run st obj dks c)"
  by (simp add: declare_monitor_def preserved)

lemma keeps_start_monitor [preserved]: "keeps ledger (start_monitor run st obj)"
proof -
  have "keeps ledger (modE (upd_slot run (\<lambda>sl. sl\<lparr> rn_monitor_tasks := f sl \<rparr>)))" for f
    by (simp add: keeps_modE ledger_upd_slot slot_uids_def)
  then show ?thesis by (simp add: start_monitor_def preserved ld.frame)
qed

lemma keeps_monitor_name [preserved]: "keeps ledger (monitor_stream_name n)"
  by (rule keepsI) (simp add: monitor_stream_name_def split: option.splits)

lemma keeps_h_monitor [preserved]: "keeps ledger (h_monitor run obj n)"
proof -
  have "keeps ledger (modE (\<lambda>s. reset_checkpoint_state (upd_slot run (\<lambda>sl. sl\<lparr> rn_monitored := f sl \<rparr>) s)))" for f
    by (simp add: keeps_modE ledger_upd_slot slot_uids_def)
  then show ?thesis by (simp add: h_monitor_def preserved)
qed

lemma ledger_pumps [simp]: "ledger (fold (pump_event run t) rds s) = ledger s"
  by (induction rds arbitrary: s) simp_all

lemma keeps_stop_task [preserved]: "keeps ledger (stop_task run t)"
  by (simp add: stop_task_def preserved ld.keeps_awaitE keeps_modE)

lemma keeps_h_unmonitor [preserved]: "keeps ledger (h_unmonitor run obj)"
proof -
  have "keeps ledger (modE (\<lambda>s. reset_checkpoint_state (upd_slot run
      (\<lambda>sl. sl\<lparr> rn_monitored := f sl, rn_monitor_tasks := g sl \<rparr>) s)))" for f g
    by (simp add: keeps_modE ledger_upd_slot slot_uids_def)
  then show ?thesis by (simp add: h_unmonitor_def preserved)
qed

lemma keeps_checkpoint_hook [preserved]: "keeps ledger (checkpoint_hook u e)"
  by (simp add: checkpoint_hook_def keeps_modE)

lemma keeps_compose_generations [preserved]: "keeps ledger (compose_generations run n c)"
  by (rule keepsI)
    (auto simp: compose_generations_def Let_def cache_configuration_def slot_uids_def ledger_put_slot
      split: option.splits)

lemma keeps_h_configure [preserved]: "keeps ledger (h_configure run obj args)"
  by (simp add: h_configure_def preserved ld.frame keeps_modE)

lemma keeps_h_kickoff [preserved]: "keeps ledger (h_kickoff run obj grp)"
proof -
  have "ledger (upd_slot run (\<lambda>sl. sl\<lparr> rn_uncollected := f sl \<rparr>) s) = ledger s" for f s
    by (simp add: ledger_upd_slot slot_uids_def)
  then show ?thesis by (simp add: h_kickoff_def preserved keeps_modE split: option.splits)
qed

lemma keeps_subscribe_filtered [preserved]: "keeps ledger (subscribe_filtered f cb)"
  by (rule keepsI) (simp add: subscribe_filtered_def Let_def)

lemma ledger_unsubscribe [simp]: "ledger (unsubscribe i s) = ledger s"
  by (simp add: unsubscribe_def)

lemmas small_handlers = h_set_def h_trigger_def h_prepare_def h_complete_def h_stage_def h_unstage_def
  h_stop_def h_locate_def h_wait_def h_sleep_def h_wait_for_def h_checkpoint_def h_clear_checkpoint_def
  h_rewindable_def h_input_def h_subscribe_def h_unsubscribe_def h_custom_def h_install_suspender_def
  h_push_contingency_def h_pop_contingency_def none_of_def

text \<open>Every verb but \<open>OpenRun\<close> and \<open>CloseRun\<close>.\<close>

fun opens_or_closes :: "Msg \<Rightarrow> bool" where
  "opens_or_closes (OpenRun _) = True"
| "opens_or_closes (CloseRun _ _) = True"
| "opens_or_closes _ = False"

lemma keeps_handle_msg:
  "\<not> opens_or_closes m \<Longrightarrow> keeps ledger (handle_msg run m)"
  by (cases m) (simp_all add: small_handlers preserved ld.frame ld.keeps_awaitE keeps_modE split: option.splits)

end
