(* ===== verification/Scenario.thy ===== *)
theory Scenario
  imports RunLoop
begin

text \<open>
  A concrete environment for the witnesses: a quiet world, in which every device call succeeds at
  once, every wait resolves, nothing else makes requests and the clock stands still; a plan that
  issues a fixed list of messages; a readable detector and a fresh engine.
\<close>

definition quiet_world :: world where
  "quiet_world =
     \<lparr> w_requests = (\<lambda>_. []), w_park = (\<lambda>_ _. ([], Resolved (Ok ()))),
       w_uid = (\<lambda>n. ''uid'' @ replicate n (CHR ''i'')), w_now = (\<lambda>_. 0),
       w_read = (\<lambda>_ d. Ok [(dv_name d, \<lparr> rd_value = JInt 7, rd_timestamp = 0, rd_alarm_severity = None,
                                     rd_message = None \<rparr>)]),
       w_describe = (\<lambda>_ d. Ok []), w_hint_fields = (\<lambda>_ _. None), w_configurable = (\<lambda>_. False),
       w_read_configuration = (\<lambda>_ _. Ok []), w_describe_configuration = (\<lambda>_ _. Ok []),
       w_unit_call = (\<lambda>_ _ _. Ok ()), w_status_call = (\<lambda>_ _ _. 0), w_writes_assets = (\<lambda>_ _. False),
       w_asset_docs = (\<lambda>_ _ _. Ok []), w_locate = (\<lambda>_ _. Ok \<lparr> loc_setpoint = 0, loc_readback = 0 \<rparr>),
       w_as_collectable = (\<lambda>_. None), w_describe_collect = (\<lambda>_ _. Ok []),
       w_stream_docs = (\<lambda>_ _ _. Ok []), w_collect = (\<lambda>_ _. Ok []), w_subscribe = (\<lambda>_ d. Ok (dv_name d)),
       w_pending_readings = (\<lambda>_ _. []), w_input = (\<lambda>_ _. Ok ''yes''), w_command = (\<lambda>_ _ _. Ok ()),
       w_md_validator = (\<lambda>_ _. Ok ()), w_md_normalizer = (\<lambda>_ m. Ok m), w_scan_id_source = (\<lambda>_ _. Ok 1),
       w_preprocess = (\<lambda>_ p. p), w_suspend_plan = (\<lambda>_. PlanOf (\<lambda>_. None)), w_tripped = (\<lambda>_ _. False),
       w_error_text = (\<lambda>_. ''error'') \<rparr>"

fun plan_of :: "Msg list \<Rightarrow> plan" where
  "plan_of [] = PlanOf (\<lambda>_. None)"
| "plan_of (m # ms) = PlanOf (\<lambda>v. Some (Bare m, vw_sinks v, plan_of ms))"

definition fresh_engine :: engine where
  "fresh_engine = engine_new quiet_world"

definition no_metadata :: RunMetadata where
  "no_metadata = \<lparr> md_scan_id = None, md_extra = [], md_plan_name = None \<rparr>"

definition detector :: device where
  "detector = \<lparr> dv_id = 0, dv_name = ''det'' \<rparr>"

definition one_point_scan :: "Msg list" where
  "one_point_scan = [OpenRun no_metadata, Create ''primary'', Read detector, Save, CloseRun ''success'' None]"

end
