(* ===== verification/Run_Ledger.thy ===== *)
theory Run_Ledger
  imports Engine_Laws Scenario "HOL-Library.Multiset"
begin

text \<open>
  Every run the engine opens is stopped exactly once. \<open>balanced\<close> says of a ledger that the
  start documents emitted so far are the stop documents plus the runs that are open; \<open>leads\<close> is
  the calculus that carries it through the handlers, the pause gate and the run loop, for every
  outcome but a panic. The loops are proved by induction on their fuel.
\<close>

named_theorems carried \<open>rules of the pairing calculus\<close>

definition leads :: "(engine \<Rightarrow> bool) \<Rightarrow> 'a eng \<Rightarrow> (engine \<Rightarrow> bool) \<Rightarrow> bool" where
  "leads P m Q \<longleftrightarrow> (\<forall>s. P s \<longrightarrow> (case fst (m s) of Panic _ \<Rightarrow> True | _ \<Rightarrow> Q (snd (m s))))"

lemma leadsI:
  "(\<And>s r s1. P s \<Longrightarrow> m s = (r, s1) \<Longrightarrow> (\<And>x. r \<noteq> Panic x) \<Longrightarrow> Q s1) \<Longrightarrow> leads P m Q"
  unfolding leads_def by (auto split: outcome.splits) (metis outcome.distinct prod.collapse)+

lemma leadsD: "leads P m Q \<Longrightarrow> P s \<Longrightarrow> m s = (r, s1) \<Longrightarrow> (\<And>x. r \<noteq> Panic x) \<Longrightarrow> Q s1"
  unfolding leads_def by (erule allE [of _ s]) (cases r, auto)

lemma leads_keeps: "keeps view m \<Longrightarrow> leads (\<lambda>s. p (view s)) m (\<lambda>s. p (view s))"
  by (rule leadsI) (metis keepsD snd_conv)

lemma leads_weaken: "leads P m R \<Longrightarrow> (\<And>s. R s \<Longrightarrow> Q s) \<Longrightarrow> leads P m Q"
  by (auto simp: leads_def split: outcome.splits)

lemma leads_bindE:
  assumes "leads P m R" and "\<And>x. leads R (f x) Q" and "\<And>s. R s \<Longrightarrow> Q s"
  shows "leads P (bindE m f) Q"
proof (rule leadsI)
  fix s r s1
  assume P: "P s" and run: "bindE m f s = (r, s1)" and fine: "\<And>x. r \<noteq> Panic x"
  obtain r2 s2 where m: "m s = (r2, s2)" by fastforce
  show "Q s1"
  proof (cases r2)
    case (Ok x)
    then have "R s2" using leadsD [OF assms(1) P m] by simp
    then show ?thesis using leadsD [OF assms(2)] run fine m Ok by (auto simp: bindE_def)
  qed (use leadsD [OF assms(1) P m] assms(3) run fine m in \<open>auto simp: bindE_def\<close>)
qed

lemma leads_guard:
  "leads (\<lambda>s. P s \<and> G s) m Q \<Longrightarrow> (\<And>s. P s \<Longrightarrow> Q s) \<Longrightarrow> leads P (seqE (guardE G e) m) Q"
  by (auto simp: leads_def seqE_def bindE_def guardE_def split: outcome.splits)

lemma leads_bind_same [carried]: "leads P m P \<Longrightarrow> (\<And>x. leads P (f x) P) \<Longrightarrow> leads P (bindE m f) P"
  by (rule leads_bindE)

lemma leads_seq_same [carried]: "leads P m P \<Longrightarrow> leads P n P \<Longrightarrow> leads P (seqE m n) P"
  by (simp add: seqE_def leads_bind_same)

lemma leads_simple [carried]:
  "leads P (retE x) P" "leads P (failE e) P" "leads P (liftE r) P" "leads P (getE f) P" "leads P (guardE G e) P"
  by (auto simp: leads_def retE_def failE_def liftE_def getE_def guardE_def split: outcome.splits)

lemma leads_forE [carried]: "(\<And>x. leads P (f x) P) \<Longrightarrow> leads P (forE xs f) P"
  by (induction xs) (simp_all add: carried)

lemma leads_if [carried]: "leads P m Q \<Longrightarrow> leads P n Q \<Longrightarrow> leads P (if b then m else n) Q"
  by simp

lemma leads_case_option [carried]:
  "leads P m Q \<Longrightarrow> (\<And>y. leads P (f y) Q) \<Longrightarrow> leads P (case x of None \<Rightarrow> m | Some y \<Rightarrow> f y) Q"
  by (cases x) auto

lemma leads_case_prod [carried]:
  "(\<And>x y. leads P (f x y) Q) \<Longrightarrow> leads P (case p of (x, y) \<Rightarrow> f x y) Q"
  by (cases p) auto

section \<open>The balanced ledger\<close>

type_synonym ledger = "(run_key \<times> string \<times> string) list \<times> string list \<times> string list"

definition balanced :: "ledger \<Rightarrow> bool" where
  "balanced l = (case l of (op, st, sp) \<Rightarrow>
     hwf op \<and> list_all (\<lambda>(_, u, v). u = v) op
     \<and> mset st = mset sp + mset (map (\<lambda>(_, _, v). v) op))"

definition paired :: "engine \<Rightarrow> bool" where
  "paired s = balanced (ledger s)"

lemma paired_keeps: "keeps ledger m \<Longrightarrow> leads paired m paired"
  unfolding paired_def by (rule leads_keeps)

lemma hput_new: "hget m k = None \<Longrightarrow> hput k v m = m @ [(k, v)]"
  by (induction m) (auto split: if_splits)

lemma mset_hdel:
  "hwf m \<Longrightarrow> hget m k = Some v \<Longrightarrow> mset (map f m) = add_mset (f (k, v)) (mset (map f (hdel k m)))"
proof (induction m)
  case (Cons kv m)
  then show ?case
    by (cases "fst kv = k") (auto simp: hwf_def delete_id dest: map_of_SomeD split: if_splits)
qed simp

lemma balanced_open:
  "balanced (op, st, sp) \<Longrightarrow> hget op run = None \<Longrightarrow> balanced (hput run (u, u) op, u # st, sp)"
  by (auto simp: balanced_def hput_new hwf_def map_of_eq_None_iff)

lemma balanced_close:
  assumes "balanced (op, st, sp)" and "hget op run = Some (u, v)"
  shows "balanced (hdel run op, st, v # sp)"
proof -
  have "set (hdel run op) \<subseteq> set op" by (auto simp: AList.delete_eq)
  then show ?thesis using assms mset_hdel [OF _ assms(2), of "\<lambda>(_, _, v). v"]
    by (auto simp: balanced_def list_all_iff)
qed

section \<open>Opening\<close>

definition unopened :: "run_key \<Rightarrow> ledger \<Rightarrow> bool" where
  "unopened run l = (balanced l \<and> hget (fst l) run = None)"

lemma run_open_ledger: "run_open s run \<longleftrightarrow> hget (fst (ledger s)) run \<noteq> None"
  by (simp add: run_open_def hmem_def ledger_def)

lemma open_slot_ledger:
  "slot_uids sl = (u, u) \<Longrightarrow> ledger (put_slot run sl s) = (hput run (u, u) (fst (ledger s)), snd (ledger s))"
proof -
  assume "slot_uids sl = (u, u)"
  then have "hmap_values slot_uids (hput run sl m) = hput run (u, u) (hmap_values slot_uids m)" for m
    by (induction m) (auto simp: hmap_values_def)
  then show ?thesis by (simp add: ledger_def put_slot_def)
qed

lemma new_slot_uids: "slot_uids (slot_of (bundler_new (bundle_open start))) = (rs_uid start, rs_uid start)"
  by (simp add: slot_uids_def slot_of_def bundler_new_def bundle_open_def)

lemma install_run_ledger:
  "ledger (snd (install_run run start s)) = (hput run (rs_uid start, rs_uid start) (fst (ledger s)), snd (ledger s))"
proof -
  let ?b = "bundler_new (bundle_open start)"
  have "slot_uids (slot_of (snd (declare_stream ?b st objs u t))) = (rs_uid start, rs_uid start)" for st objs u t
    using new_slot_uids [of start] by (simp add: slot_uids_def slot_of_def)
  then show ?thesis
    by (simp add: install_run_def Let_def split_beta open_slot_ledger new_slot_uids)
qed

lemma announce_run:
  assumes "rs_uid start = uid"
  shows "leads (\<lambda>s. unopened run (ledger s))
     (seqE (broadcast (DocStart start))
       (bindE (install_run run start) (\<lambda>d.
        seqE (case d of None \<Rightarrow> retE () | Some desc \<Rightarrow> broadcast (DocDescriptor desc)) (retE uid)))) paired"
proof (rule leadsI)
  fix s :: engine and r :: "string outcome" and s1
  assume un: "unopened run (ledger s)"
  let ?tail = "\<lambda>d. seqE (case d of None \<Rightarrow> retE () | Some desc \<Rightarrow> broadcast (DocDescriptor desc)) (retE uid)"
  let ?s2 = "snd (broadcast (DocStart start) s)"
  assume "seqE (broadcast (DocStart start)) (bindE (install_run run start) ?tail) s = (r, s1)"
  moreover have "fst (broadcast (DocStart start) s) = Ok ()"
    by (simp add: broadcast_def deliverE_def seqE_def bindE_def awaitE_def modE_def Let_def)
  moreover obtain d where "fst (install_run run start ?s2) = Ok d"
    by (cases "en_record_interruptions ?s2") (simp_all add: install_run_def Let_def split_beta)
  ultimately have s1: "s1 = snd (?tail d (snd (install_run run start ?s2)))"
    by (simp add: seqE_def bindE_def split_beta)
  have "keeps ledger (?tail d)" by (simp add: preserved split: option.split)
  then have same: "ledger s1 = ledger (snd (install_run run start ?s2))" using s1 keepsD by simp
  have two: "ledger ?s2 = (fst (ledger s), uid # fst (snd (ledger s)), snd (snd (ledger s)))"
    using assms by (simp add: broadcast_def ld.view_deliverE) (simp add: ledger_def push_def)
  show "paired s1"
    using un balanced_open [of "fst (ledger s)" "fst (snd (ledger s))" "snd (snd (ledger s))" run uid]
    by (simp add: paired_def same install_run_ledger two assms unopened_def)
qed

lemma keeps_resolve_scan [preserved]: "keeps ledger (resolve_scan_id meta m)"
  by (simp add: resolve_scan_id_def preserved keeps_modE)

lemma keeps_fresh_uid [preserved]: "keeps ledger fresh_uid"
  by (rule keepsI) (simp add: fresh_uid_def)

lemma unopened_keeps: "keeps ledger m \<Longrightarrow> (\<And>x. leads (\<lambda>s. unopened run (ledger s)) (f x) paired)
    \<Longrightarrow> leads (\<lambda>s. unopened run (ledger s)) (bindE m f) paired"
  by (rule leads_bindE [OF leads_keeps [where p = "unopened run"]]) (auto simp: unopened_def paired_def)

lemma unopened_seq: "keeps ledger m \<Longrightarrow> leads (\<lambda>s. unopened run (ledger s)) n paired
    \<Longrightarrow> leads (\<lambda>s. unopened run (ledger s)) (seqE m n) paired"
  by (simp add: seqE_def unopened_keeps)

lemma rs_uid_bundle_start [simp]: "rs_uid (bundle_start uid now sid g) = uid"
  by (simp add: bundle_start_def)

lemma opens_paired [carried]: "leads paired (open_run run meta) paired"
proof -
  have same: "(\<lambda>s. paired s \<and> \<not> run_open s run) = (\<lambda>s. unopened run (ledger s))"
    by (rule ext) (simp add: paired_def unopened_def run_open_ledger del: not_None_eq)
  show ?thesis unfolding open_run_def Let_def
    by (rule leads_guard, unfold same)
      (auto intro!: unopened_keeps unopened_seq announce_run simp: preserved keeps_modE)
qed

section \<open>Closing\<close>

lemma close_run_ledger:
  assumes "close_run_if_open run status reason s = (r, s1)" and "\<And>x. r \<noteq> Panic x"
  shows "r = Ok () \<and> ledger s1 = (case hget (fst (ledger s)) run of
      None \<Rightarrow> ledger s
    | Some (u, v) \<Rightarrow> (hdel run (fst (ledger s)), fst (snd (ledger s)), v # snd (snd (ledger s))))"
proof (cases "hget (en_runs s) run")
  case None
  then show ?thesis using assms
    by (auto simp: close_run_if_open_def Let_def compose_stop_def bindE_def retE_def ledger_def)
next
  case (Some sl)
  let ?e = "normalize_exit_status status"
  have hdel_values: "hmap_values slot_uids (hdel run m) = hdel run (hmap_values slot_uids m)" for m
    by (induction m) (auto simp: hmap_values_def)
  let ?s0 = "s\<lparr> en_runs := hdel run (en_runs s), en_uids := Suc (en_uids s) \<rparr>"
  obtain st where st: "bundle_stop (bd_bundle (rn_bundler sl)) ?e reason
      (w_uid (en_world s) (en_uids s)) (w_now (en_world s) (en_trace s)) = Ok st"
    and uid: "stop_run_start st = rb_start_uid (bd_bundle (rn_bundler sl))"
    using assms Some
    by (auto simp: close_run_if_open_def compose_stop_def bindE_def bundle_stop_def Let_def split: option.splits)
  let ?n = "seqE (broadcast (DocStop st)) (checkpoint_hook (Some (stop_run_start st)) (Some ?e))"
  have run: "?n ?s0 = (r, s1)"
    using assms(1) Some st by (simp add: close_run_if_open_def compose_stop_def bindE_def Let_def)
  have one: "broadcast (DocStop st) ?s0 = (Ok (), snd (broadcast (DocStop st) ?s0))"
    by (simp add: broadcast_def deliverE_def seqE_def bindE_def awaitE_def modE_def Let_def)
  have "r = Ok ()" and "ledger s1 = ledger (snd (broadcast (DocStop st) ?s0))"
    using run one by (auto simp: seqE_def bindE_def checkpoint_hook_def modE_def split: if_splits prod.splits)
  moreover have "ledger (snd (broadcast (DocStop st) ?s0)) =
      (hdel run (fst (ledger s)), fst (snd (ledger s)), stop_run_start st # snd (snd (ledger s)))"
    by (simp add: broadcast_def ld.view_deliverE) (simp add: ledger_def push_def hdel_values)
  ultimately show ?thesis using Some uid by (simp add: ledger_def slot_uids_def)
qed

lemma closes_paired [carried]: "leads paired (close_run_if_open run status reason) paired"
proof (rule leadsI)
  fix s r s1
  assume p: "paired s" and "close_run_if_open run status reason s = (r, s1)" and "\<And>x. r \<noteq> Panic x"
  from close_run_ledger [OF this(2,3)]
  show "paired s1"
    using p balanced_close [of "fst (ledger s)" "fst (snd (ledger s))" "snd (snd (ledger s))" run]
    by (auto simp: paired_def split: option.splits)
qed

section \<open>Messages\<close>

lemma paired_keeps_msg: "\<not> opens_or_closes m \<Longrightarrow> leads paired (handle_msg run m) paired"
  by (rule paired_keeps [OF keeps_handle_msg])

lemma paired_handle_msg [carried]: "leads paired (handle_msg run m) paired"
proof (cases "opens_or_closes m")
  case True
  have set: "leads paired (set_result r) paired" for r by (rule paired_keeps [OF keeps_set_result])
  from True show ?thesis
    by (cases m) (simp_all add: h_open_run_def h_close_run_def none_of_def carried set)
qed (rule paired_keeps_msg)

lemma paired_handle [carried]: "leads paired (handle m) paired"
proof (cases m)
  case (InRun run inner)
  then show ?thesis by (cases inner) (simp_all add: carried del: handle_msg.simps)
qed (simp_all add: carried del: handle_msg.simps)

section \<open>The loop's own steps keep the ledger\<close>

lemma ledger_hmap_slots:
  "(\<And>sl. slot_uids (f sl) = slot_uids sl) \<Longrightarrow> ledger (s\<lparr> en_runs := hmap_values f (en_runs s) \<rparr>) = ledger s"
  by (simp add: ledger_def hmap_values_comp)

lemma ledger_drop_pumps [simp]: "ledger (drop_pumps s) = ledger s"
  by (simp add: drop_pumps_def ledger_hmap_slots slot_uids_def)

lemma ledger_arm_rewind [simp]: "ledger (arm_rewind s) = ledger s"
proof -
  have "ledger ((s\<lparr> en_msg_cache := [] \<rparr>)\<lparr> en_runs := hmap_values (\<lambda>sl. sl\<lparr> rn_bundler := bundler_rewind (rn_bundler sl),
      rn_bundle_asset_objs := [] \<rparr>) (en_runs (s\<lparr> en_msg_cache := [] \<rparr>)) \<rparr>) = ledger s"
    by (subst ledger_hmap_slots) (simp_all add: slot_uids_def)
  then show ?thesis by (simp add: arm_rewind_def Let_def)
qed

lemma ledger_control_frame [simp]: "ledger (s\<lparr> en_sinks := a, en_replay_queue := b \<rparr>) = ledger s"
  by simp

lemma keeps_poll [preserved]: "keeps ledger (poll_plan p reply)"
proof -
  have "keeps ledger (\<lambda>s. case plan_next p (view_of s reply) of
      None \<Rightarrow> (Ok None, s)
    | Some (item, sinks, p1) \<Rightarrow> (Ok (Some (item, p1)), s\<lparr> en_sinks := sinks \<rparr>))"
    by (rule keepsI) (simp split: option.splits)
  then show ?thesis by (simp add: poll_plan_def keeps_seqE ld.keeps_awaitE)
qed

lemma keeps_pull [preserved]: "keeps ledger (pull_msg p reply)"
proof (rule keepsI)
  fix s
  have "keeps ledger (bindE (poll_plan p reply) (\<lambda>item. case item of None \<Rightarrow> retE None
      | Some (Respond m, p1) \<Rightarrow> retE (Some (m, True, p1))
      | Some (Bare m, p1) \<Rightarrow> seqE (modE (\<lambda>s. if en_rewindable s \<and> is_cacheable m
            then s\<lparr> en_msg_cache := en_msg_cache s @ [m] \<rparr> else s)) (retE (Some (m, False, p1)))))"
    by (intro keeps_bindE) (auto simp: preserved keeps_modE split: option.split PlanItem.split)
  from keepsD [OF this, of s] show "ledger (snd (pull_msg p reply s)) = ledger s"
    by (cases "en_replay_queue s") (simp_all add: pull_msg_def)
qed

lemma keeps_loop_registers [preserved]:
  "keeps ledger take_msg_result" "keeps ledger (throw_into_plan t)" "keeps ledger (take_interruptE n)"
  "keeps ledger (ack_pauseE n)" "keeps ledger take_suspension" "keeps ledger (msg_hook m)"
  by (rule keepsI, simp add: take_msg_result_def throw_into_plan_def take_interruptE_def ack_pauseE_def
      take_suspension_def msg_hook_def modE_def split_beta Let_def)+

lemma keeps_await_permit [preserved]: "keeps ledger (await_permit n)"
  by (rule keepsI) (simp add: await_permit_def Let_def ld.view_requests)

lemma keeps_record [preserved]: "keeps ledger (record_interruption c)"
  by (simp add: record_interruption_def interruptions_event_def preserved)

lemma keeps_restore [preserved]: "keeps ledger restore_monitors"
  by (simp add: restore_monitors_def preserved)

lemma keeps_pause_walk [preserved]: "keeps ledger (on_pause_enter c)"
  by (simp add: on_pause_enter_def preserved keeps_modE ld.frame)

lemma keeps_resume_walk [preserved]: "keeps ledger on_resume"
  by (simp add: on_resume_def preserved keeps_modE ld.frame)

section \<open>The loop keeps it balanced\<close>

lemmas paired_leaves [carried] = keeps_loop_registers [THEN paired_keeps] keeps_poll [THEN paired_keeps]
  keeps_pull [THEN paired_keeps] keeps_await_permit [THEN paired_keeps] keeps_record [THEN paired_keeps]
  keeps_restore [THEN paired_keeps] keeps_pause_walk [THEN paired_keeps] keeps_resume_walk [THEN paired_keeps]
  keeps_backstop [THEN paired_keeps] keeps_set_result [THEN paired_keeps]

lemma leads_cases:
  assumes m: "leads P m P" and ok: "\<And>x. leads P (f x) P" and err: "\<And>e. leads P (g e) P"
  shows "leads P (\<lambda>s. case m s of (Ok x, s1) \<Rightarrow> f x s1 | (Err e, s1) \<Rightarrow> g e s1
      | (Panic x, s1) \<Rightarrow> (Panic x, s1) | (Hang, s1) \<Rightarrow> (Hang, s1)) P"
proof (rule leadsI)
  fix s r s1
  assume P: "P s" and fine: "\<And>x. r \<noteq> Panic x"
    and run: "(case m s of (Ok x, s1) \<Rightarrow> f x s1 | (Err e, s1) \<Rightarrow> g e s1
      | (Panic x, s1) \<Rightarrow> (Panic x, s1) | (Hang, s1) \<Rightarrow> (Hang, s1)) = (r, s1)"
  obtain r2 s2 where s2: "m s = (r2, s2)" by fastforce
  show "P s1"
  proof (cases r2)
    case (Ok x)
    then have "P s2" using leadsD [OF m P s2] by simp
    from leadsD [OF ok this, of x r s1] show ?thesis using run s2 fine Ok by simp
  next
    case (Err e)
    then have "P s2" using leadsD [OF m P s2] by simp
    from leadsD [OF err this, of e r s1] show ?thesis using run s2 fine Err by simp
  next
    case Hang
    then show ?thesis using leadsD [OF m P s2] run s2 by simp
  next
    case (Panic x)
    then have "r = Panic x" using run s2 by simp
    then show ?thesis using fine by blast
  qed
qed

lemma paired_injected [carried]: "leads paired (run_injected_plan n p reply) paired"
proof (induction n arbitrary: p reply)
  case (Suc n)
  have step: "leads paired (\<lambda>s. case handle m s of
      (Ok _, s1) \<Rightarrow> (case it of Bare _ \<Rightarrow> run_injected_plan n p1 reply s1
         | Respond _ \<Rightarrow> bindE take_msg_result (\<lambda>r. run_injected_plan n p1 (Some r)) s1)
    | (Err e, s1) \<Rightarrow> (Ok (), s1) | (Panic x, s1) \<Rightarrow> (Panic x, s1) | (Hang, s1) \<Rightarrow> (Hang, s1)) paired" for m it p1
  proof (cases it)
    case (Bare m')
    have "leads paired (\<lambda>s. case handle m s of (Ok _, s1) \<Rightarrow> run_injected_plan n p1 reply s1
      | (Err e, s1) \<Rightarrow> retE () s1 | (Panic x, s1) \<Rightarrow> (Panic x, s1) | (Hang, s1) \<Rightarrow> (Hang, s1)) paired"
      by (rule leads_cases) (simp_all only: carried Suc)
    then show ?thesis unfolding Bare retE_def PlanItem.case .
  next
    case (Respond m')
    have "leads paired (\<lambda>s. case handle m s of
        (Ok _, s1) \<Rightarrow> bindE take_msg_result (\<lambda>r. run_injected_plan n p1 (Some r)) s1
      | (Err e, s1) \<Rightarrow> retE () s1 | (Panic x, s1) \<Rightarrow> (Panic x, s1) | (Hang, s1) \<Rightarrow> (Hang, s1)) paired"
      by (rule leads_cases) (simp_all only: carried Suc)
    then show ?thesis unfolding Respond retE_def PlanItem.case .
  qed
  have "leads paired (case raised (item_msg it) of Some t \<Rightarrow> retE () | None \<Rightarrow> (\<lambda>s. case handle (item_msg it) s of
      (Ok _, s1) \<Rightarrow> (case it of Bare _ \<Rightarrow> run_injected_plan n p1 reply s1
         | Respond _ \<Rightarrow> bindE take_msg_result (\<lambda>r. run_injected_plan n p1 (Some r)) s1)
    | (Err e, s1) \<Rightarrow> (Ok (), s1) | (Panic x, s1) \<Rightarrow> (Panic x, s1) | (Hang, s1) \<Rightarrow> (Hang, s1))) paired" for it p1
    using step [where m = "item_msg it" and it = it and ?p1.0 = p1]
    by (cases "raised (item_msg it)") (simp_all only: carried option.case)
  then show ?case by (simp add: carried)
qed (simp add: carried)

lemma paired_suspend_plan [carried]: "leads paired (suspend_plan n k) paired"
  by (cases k) (simp_all add: suspend_plan_def carried)

lemma paired_pause_gate [carried]: "leads paired (pause_gate n t seen) paired"
proof (induction n arbitrary: seen)
  case (Suc n)
  then show ?case by (simp add: carried)
qed (simp add: carried)

lemma paired_drain [carried]: "leads paired (drain_and_close status reason) paired"
  by (simp add: drain_and_close_def carried)

lemma paired_ends [carried]:
  "leads paired (end_interrupted uids status) paired" "leads paired (end_failed uids e) paired"
  "leads paired (end_plan uids) paired" "leads paired (end_thrown uids t) paired"
  by (simp_all add: end_interrupted_def end_failed_def end_plan_def end_thrown_def build_result_def carried
      split: Thrown.split)

definition cancelled_step :: "u64 \<Rightarrow> u64 \<Rightarrow> BsrsError \<Rightarrow> (step_result \<times> u64) eng" where
  "cancelled_step thrown_seq pause_seen e =
     (if e \<noteq> Cancelled then retE (Threw (ThrownError e), thrown_seq)
      else bindE (take_interruptE thrown_seq) (\<lambda>(req, seq).
             case req of
               None \<Rightarrow> bindE (getE (\<lambda>s. pause_pending pause_seen (en_control s))) (\<lambda>p.
                         retE (if p then Bounced else Threw (ThrownError Cancelled), seq))
             | Some HaltRequest \<Rightarrow> retE (HaltedNow, seq)
             | Some (ThrowRequest kind) \<Rightarrow>
                 bindE (getE (\<lambda>s. stop_reason (en_control s))) (\<lambda>r.
                   retE (Threw (ThrownInterrupt kind r), seq))))"

lemma handle_step_cases:
  "handle_step m thrown_seq pause_seen =
     (case raised m of
        Some t \<Rightarrow> retE (Threw t, thrown_seq)
      | None \<Rightarrow> (\<lambda>s. case handle m s of
            (Ok uid, s1) \<Rightarrow> retE (Handled uid, thrown_seq) s1
          | (Err e, s1) \<Rightarrow> cancelled_step thrown_seq pause_seen e s1
          | (Panic p, s1) \<Rightarrow> (Panic p, s1)
          | (Hang, s1) \<Rightarrow> (Hang, s1)))"
proof (rule ext)
  fix s
  obtain r s1 where "handle m s = (r, s1)" by fastforce
  then show "handle_step m thrown_seq pause_seen s = (case raised m of
        Some t \<Rightarrow> retE (Threw t, thrown_seq)
      | None \<Rightarrow> (\<lambda>s. case handle m s of
            (Ok uid, s1) \<Rightarrow> retE (Handled uid, thrown_seq) s1
          | (Err e, s1) \<Rightarrow> cancelled_step thrown_seq pause_seen e s1
          | (Panic p, s1) \<Rightarrow> (Panic p, s1)
          | (Hang, s1) \<Rightarrow> (Hang, s1))) s"
    by (cases "raised m"; cases r) (simp_all add: handle_step_def cancelled_step_def retE_def)
qed

lemma paired_cancelled_step [carried]: "leads paired (cancelled_step t p e) paired"
  by (simp add: cancelled_step_def carried split: option.split InterruptRequest.split)

lemma paired_handle_step [carried]: "leads paired (handle_step m thrown_seq pause_seen) paired"
proof -
  have "leads paired (\<lambda>s. case handle m s of
            (Ok uid, s1) \<Rightarrow> retE (Handled uid, thrown_seq) s1
          | (Err e, s1) \<Rightarrow> cancelled_step thrown_seq pause_seen e s1
          | (Panic p, s1) \<Rightarrow> (Panic p, s1)
          | (Hang, s1) \<Rightarrow> (Hang, s1)) paired"
    by (rule leads_cases) (simp_all only: carried)
  then show ?thesis unfolding handle_step_cases by (cases "raised m") (simp_all only: carried option.case)
qed

lemma paired_run_loop [carried]: "leads paired (run_loop n p reply t seen uids) paired"
proof (induction n arbitrary: p reply t seen uids)
  case (Suc n)
  have after: "leads paired (case res of
      Handled uid \<Rightarrow>
        (let uids = uids @ (case uid of None \<Rightarrow> [] | Some u \<Rightarrow> [u])
         in if owed then bindE take_msg_result (\<lambda>r. run_loop n p1 (Some r) seq seen uids)
            else run_loop n p1 reply seq seen uids)
    | Bounced \<Rightarrow> run_loop n p1 (if owed then None else reply) seq seen uids
    | HaltedNow \<Rightarrow> end_interrupted uids ''halt''
    | Threw thrown \<Rightarrow> bindE (throw_into_plan thrown) (\<lambda>caught.
        if caught then run_loop n p1 (if owed then None else reply) seq seen uids
        else end_thrown uids thrown)) paired" for res owed p1 seq seen uids
    by (cases res) (simp_all add: carried Let_def Suc)
  have req: "leads paired (case req of
      Some HaltRequest \<Rightarrow> a | Some (ThrowRequest kind) \<Rightarrow> f kind | None \<Rightarrow> c) paired"
    if "leads paired a paired" "\<And>k. leads paired (f k) paired" "leads paired c paired"
    for req and a c :: "RunResult eng" and f
    using that by (cases req) (simp_all split: InterruptRequest.split)
  show ?case unfolding run_loop.simps
    by (intro leads_bind_same leads_case_prod req leads_case_option leads_seq_same leads_if after)
      (simp_all add: carried Suc)
qed (simp add: carried)

section \<open>Every run is closed when the loop returns\<close>

definition all_closed :: "'a eng \<Rightarrow> bool" where
  "all_closed m \<longleftrightarrow> (\<forall>s x s1. m s = (Ok x, s1) \<longrightarrow> en_runs s1 = [])"

lemma all_closed_bindE: "(\<And>x. all_closed (f x)) \<Longrightarrow> all_closed (bindE m f)"
  by (auto simp: all_closed_def bindE_def split: prod.splits outcome.splits)

lemma all_closed_seqE: "all_closed n \<Longrightarrow> all_closed (seqE m n)"
  by (simp add: seqE_def all_closed_bindE)

lemma all_closed_liftE: "r = Hang \<Longrightarrow> all_closed (liftE r)"
  by (simp add: all_closed_def liftE_def)

lemma all_closed_build: "all_closed m \<Longrightarrow> all_closed (seqE m (build_result uids st e))"
  by (auto simp: all_closed_def seqE_def bindE_def build_result_def getE_def split: prod.splits outcome.splits)

lemma runs_empty_ledger: "en_runs s = [] \<longleftrightarrow> fst (ledger s) = []"
  by (simp add: ledger_def hmap_values_def)

lemma close_each:
  assumes "forE ks (\<lambda>key. close_run_if_open key status reason) s = (Ok u, s1)"
    and "set (hkeys (fst (ledger s))) \<subseteq> set ks"
  shows "fst (ledger s1) = []"
  using assms
proof (induction ks arbitrary: s)
  case Nil
  then show ?case by (auto simp: retE_def)
next
  case (Cons k ks)
  obtain r s2 where one: "close_run_if_open k status reason s = (r, s2)" by fastforce
  have run: "(case (r, s2) of (Ok x, s1) \<Rightarrow> forE ks (\<lambda>key. close_run_if_open key status reason) s1
      | (Err e, s1) \<Rightarrow> (Err e, s1) | (Panic p, s1) \<Rightarrow> (Panic p, s1) | (Hang, s1) \<Rightarrow> (Hang, s1)) = (Ok u, s1)"
    using Cons.prems(1) one by (simp add: seqE_def bindE_def)
  then have r: "\<And>x. r \<noteq> Panic x" by (cases r) auto
  have "fst (ledger s2) = hdel k (fst (ledger s))"
    using close_run_ledger [OF one r] by (auto simp: delete_id map_of_eq_None_iff split: option.splits)
  then have "set (hkeys (fst (ledger s2))) \<subseteq> set ks"
    using Cons.prems(2) by (auto simp: AList.delete_eq)
  then show ?case using Cons.IH run close_run_ledger [OF one r] by simp
qed

lemma drain_closes: "all_closed (drain_and_close status reason)"
proof -
  have "all_closed (bindE (getE (\<lambda>s. hkeys (en_runs s)))
      (\<lambda>ks. forE ks (\<lambda>key. close_run_if_open key status reason)))"
    unfolding all_closed_def runs_empty_ledger
  proof (intro allI impI)
    fix s x s1
    assume "bindE (getE (\<lambda>s. hkeys (en_runs s))) (\<lambda>ks. forE ks (\<lambda>key. close_run_if_open key status reason)) s
      = (Ok x, s1)"
    then have "forE (hkeys (en_runs s)) (\<lambda>key. close_run_if_open key status reason) s = (Ok x, s1)"
      by (simp add: bindE_def getE_def)
    then show "fst (ledger s1) = []" by (rule close_each) (simp add: ledger_def)
  qed
  then show ?thesis by (simp add: drain_and_close_def all_closed_seqE)
qed

lemma ends_close:
  "all_closed (end_interrupted uids status)" "all_closed (end_failed uids e)" "all_closed (end_thrown uids t)"
  by (simp_all add: end_thrown_def end_interrupted_def end_failed_def all_closed_bindE all_closed_build
      drain_closes split: Thrown.split)

lemma end_plan_closes: "all_closed (end_plan uids)"
  unfolding all_closed_def
proof (intro allI impI)
  fix s x s1
  assume run: "end_plan uids s = (Ok x, s1)"
  have "all_closed (seqE (drain_and_close ''success'' None) (build_result uids ''success'' None))"
    by (simp add: all_closed_build drain_closes)
  then show "en_runs s1 = []" using run
    by (auto simp: end_plan_def bindE_def getE_def any_run_open_def build_result_def all_closed_def split: if_splits)
qed

lemma run_loop_closes: "all_closed (run_loop n p reply t seen uids)"
proof (induction n arbitrary: p reply t seen uids)
  case (Suc n)
  then show ?case
    by (auto intro!: all_closed_bindE all_closed_seqE ends_close end_plan_closes simp: Let_def
        split: option.split InterruptRequest.split step_result.split)
qed (simp add: all_closed_liftE)

section \<open>A whole run\<close>

lemma ledger_closed: "en_runs s = [] \<Longrightarrow> balanced ([], starts (en_trace s), stops (en_trace s)) \<Longrightarrow> paired s"
  by (simp add: paired_def ledger_def hmap_values_def)

lemma keeps_start_run [preserved]: "keeps ledger start_run"
  by (rule keepsI) (simp add: start_run_def Let_def split_beta split: outcome.split)

lemma keeps_gate [preserved]: "keeps ledger suspender_gate"
  by (rule keepsI) (simp add: suspender_gate_def Let_def split_beta ld.view_requests)

lemma ledger_finish [simp]: "ledger (finish_run s) = ledger s"
  by (simp add: finish_run_def Let_def)

lemma ledger_unsubscribes [simp]: "ledger (fold unsubscribe xs s) = ledger s"
  by (induction xs arbitrary: s) simp_all

lemma cleanup_ledger: "ledger (snd (cleanup s)) = ([], snd (ledger s))"
proof -
  let ?s1 = "snd (take_registers s)"
  have "keeps ledger (seqE (modE (fold unsubscribe subs)) (seqE (stop_walk ms) (seqE (stop_walk fs)
      (seqE (forE st (\<lambda>d. ignoreE (unit_call ''unstage'' d))) (modE finish_run)))))" for subs ms fs st
    by (simp add: preserved keeps_modE ld.frame)
  then have "ledger (snd (cleanup s)) = ledger ?s1"
    by (simp add: cleanup_def split_beta keepsD)
  then show ?thesis by (simp add: take_registers_def ledger_def hmap_values_def)
qed

lemma run_async_stages:
  assumes "run_async n p s = (Ok r, s')"
  obtains t seen p1 s1 s2 where "ledger s1 = ledger s" and "run_loop n p1 None t seen [] s1 = (Ok r, s2)"
    and "s' = snd (cleanup s2)"
proof -
  obtain t seen s0 where start: "start_run s = (Ok (t, seen), s0)"
    using assms by (cases "start_run s"; cases "fst (start_run s)") (auto simp: run_async_def bindE_def)
  let ?p = "fold (w_preprocess (en_world s0)) (en_preprocessors s0) p"
  obtain u s1 where gate: "suspender_gate s0 = (Ok u, s1)"
    using assms start
    by (cases "suspender_gate s0"; cases "fst (suspender_gate s0)")
      (auto simp: run_async_def bindE_def getE_def seqE_def)
  obtain r2 s2 where loop: "run_loop n ?p None t seen [] s1 = (r2, s2)" by fastforce
  have "r2 = Ok r \<and> s' = snd (cleanup s2)"
    using assms start gate loop
    by (cases r2; cases "cleanup s2"; cases "fst (cleanup s2)")
      (auto simp: run_async_def bindE_def getE_def seqE_def retE_def failE_def)
  moreover have "ledger s1 = ledger s"
    using keepsD [OF keeps_start_run, of s] keepsD [OF keeps_gate, of s0] start gate by simp
  ultimately show thesis using that loop by blast
qed

text \<open>C2. The pairing of runs is an invariant of every message. If the starts emitted so far are
  the stops emitted so far plus the runs that are open, then so they are after any message the engine
  handles, in any run, whatever the devices answer and other tasks request meanwhile, and whether
  the handler succeeds, fails or parks for ever; only a panic is excluded.\<close>

theorem handle_keeps_runs_paired:
  assumes "handle m s = (r, s')" and "\<forall>x. r \<noteq> Panic x" and "paired s"
  shows "hwf (en_runs s') \<and> mset (starts (en_trace s'))
      = mset (stops (en_trace s')) + mset (map (\<lambda>sl. bd_start_uid (rn_bundler sl)) (hvalues (en_runs s')))"
proof -
  have p: "paired s'" using leadsD [OF paired_handle assms(3,1)] assms(2) by simp
  have "map (\<lambda>(_, _, v). v) (hmap_values slot_uids rs) = map (\<lambda>sl. bd_start_uid (rn_bundler sl)) (hvalues rs)"
    if "list_all (\<lambda>(_, u, v). u = v) (hmap_values slot_uids rs)" for rs :: "(run_key, RunSlot) hmap"
    using that by (induction rs) (auto simp: hmap_values_def slot_uids_def)
  then show ?thesis using p by (simp add: paired_def balanced_def ledger_def del: mset_map)
qed

lemma paired_fresh: "paired fresh_engine"
  by (simp add: paired_def balanced_def ledger_def fresh_engine_def engine_new_def hmap_values_def starts_def stops_def)

theorem handle_keeps_runs_paired_witness:
  "let s' = snd (handle (OpenRun no_metadata) fresh_engine)
   in mset (starts (en_trace s')) = {#''uid''#} \<and> stops (en_trace s') = []"
proof -
  let ?h = "handle (OpenRun no_metadata) fresh_engine"
  have ok: "is_ok (fst ?h)" by code_simp
  have "mset (starts (en_trace (snd ?h))) = mset (stops (en_trace (snd ?h)))
      + mset (map (\<lambda>sl. bd_start_uid (rn_bundler sl)) (hvalues (en_runs (snd ?h))))"
    by (rule handle_keeps_runs_paired [where r = "fst ?h" and s = fresh_engine and m = "OpenRun no_metadata",
        THEN conjunct2])
      (use ok paired_fresh in \<open>auto simp: is_ok_def simp del: handle.simps split: outcome.splits\<close>)
  moreover have "stops (en_trace (snd ?h)) = []" by code_simp
  moreover have "map (\<lambda>sl. bd_start_uid (rn_bundler sl)) (hvalues (en_runs (snd ?h))) = [''uid'']" by code_simp
  ultimately show ?thesis unfolding Let_def by (simp only: mset.simps add_0)
qed

text \<open>C1. A run that returns has stopped every run it started. Whatever the plan is (it may leave
  runs open, fail, be paused, aborted or halted), whatever the devices answer and other tasks
  request, if \<open>run_async\<close> returns a result then no run is open and every start document emitted has
  exactly one stop document.\<close>

theorem run_async_closes_every_run:
  assumes "run_async n p s = (Ok r, s')" and "paired s"
  shows "en_runs s' = [] \<and> mset (starts (en_trace s')) = mset (stops (en_trace s'))"
proof -
  obtain t seen p1 s1 s2 where s1: "ledger s1 = ledger s"
    and loop: "run_loop n p1 None t seen [] s1 = (Ok r, s2)" and s': "s' = snd (cleanup s2)"
    using run_async_stages [OF assms(1)] by metis
  have "paired s1" using assms(2) s1 by (simp add: paired_def)
  then have "paired s2" using leadsD [OF paired_run_loop _ loop] by simp
  moreover have "en_runs s2 = []" using run_loop_closes loop unfolding all_closed_def by blast
  ultimately show ?thesis using cleanup_ledger [of s2] s'
    by (auto simp: paired_def balanced_def ledger_def hmap_values_def)
qed

definition left_open :: plan where
  "left_open = plan_of [OpenRun no_metadata, InRun ''second'' (OpenRun no_metadata), Create ''primary'', Read detector]"

theorem run_async_closes_every_run_witness:
  "let s' = snd (run_async 9 left_open fresh_engine)
   in en_runs s' = [] \<and> mset (starts (en_trace s')) = mset (stops (en_trace s')) \<and> length (starts (en_trace s')) = 2"
proof -
  let ?h = "run_async 9 left_open fresh_engine"
  have ok: "is_ok (fst ?h)" by code_simp
  then obtain r where "fst ?h = Ok r" by (auto simp: is_ok_def split: outcome.splits)
  then have "en_runs (snd ?h) = [] \<and> mset (starts (en_trace (snd ?h))) = mset (stops (en_trace (snd ?h)))"
    using run_async_closes_every_run [of 9 left_open fresh_engine r "snd ?h"] paired_fresh by (simp add: prod_eq_iff)
  moreover have "length (starts (en_trace (snd ?h))) = 2" by code_simp
  ultimately show ?thesis by simp
qed

end
