(* ===== verification/Engine_Props.thy ===== *)
theory Engine_Props
  imports Run_Ledger
begin

text \<open>
  What the handlers, the entry points and the rewind promise: illegal messages are rejected before
  anything happens, a second caller is turned away, metadata layers override each other in the documented
  order, a resume replays what was cached, and the cleanup stops and unstages everything touched.
\<close>

section \<open>Illegal messages\<close>

text \<open>The messages the engine must refuse in a state, whoever issues them.\<close>

fun illegal :: "engine \<Rightarrow> run_key \<Rightarrow> Msg \<Rightarrow> bool" where
  "illegal s run (OpenRun _) = run_open s run"
| "illegal s run (CloseRun _ _) = (\<not> run_open s run)"
| "illegal s run (Create _) = (\<not> run_open s run \<or> is_bundling_run s run)"
| "illegal s run Save = (\<not> run_open s run)"
| "illegal s run Drop = (\<not> is_bundling_run s run)"
| "illegal s run (DeclareStream _ _) = (\<not> run_open s run)"
| "illegal s run (Kickoff _ _) = (\<not> run_open s run)"
| "illegal s run (Collect _ _) = (\<not> run_open s run)"
| "illegal s run (Monitor obj _) = (\<not> run_open s run \<or> is_monitored s run (dv_name obj))"
| "illegal s run (Unmonitor obj) = (\<not> is_monitored s run (dv_name obj))"
| "illegal s run Checkpoint = any_bundling s"
| "illegal s run (Configure _ _) = is_bundling_run s run"
| "illegal s run (Input _) = (\<not> en_input_handler s)"
| "illegal s run (Custom name _) = (\<not> hmem name (en_commands s))"
| "illegal s run (InstallSuspender _ susp) = (susp = None)"
| "illegal s run _ = False"

lemma guard_fails: "\<not> P s \<Longrightarrow> seqE (guardE P e) m s = (Err e, s)"
  by (simp add: seqE_def bindE_def guardE_def)

lemma guard_passes: "P s \<Longrightarrow> seqE (guardE P e) m s = m s"
  by (simp add: seqE_def bindE_def guardE_def)

lemma none_of_fails: "m s = (Err e, s1) \<Longrightarrow> none_of m s = (Err e, s1)"
  by (simp add: none_of_def seqE_def bindE_def)

lemma not_open: "\<not> run_open s run \<longleftrightarrow> hget (en_runs s) run = None"
  by (simp add: run_open_def hmem_def)

lemma bundling_slot:
  "is_bundling_run s run \<longleftrightarrow> (\<exists>sl. hget (en_runs s) run = Some sl \<and> bd_open (rn_bundler sl) \<noteq> None)"
  by (auto simp: is_bundling_run_def bundler_of_def is_bundling_def split: option.splits)

text \<open>C8. Illegal messages are refused before anything happens: for every verb the engine guards (a
  second open, a message of a run that is not open, a bundle inside a bundle, a checkpoint or a
  configure inside a bundle, a monitor that exists already or an unmonitor of one that does not, an
  input or a command without handler), the outcome is a plan error and the engine is exactly as it
  was: nothing is emitted, no device is called and no await point is reached.\<close>

theorem illegal_rejected_untouched:
  assumes "illegal s run m"
  shows "\<exists>e. handle_msg run m s = (Err (Plan e), s)"
proof (cases m)
  case (OpenRun meta)
  then show ?thesis using assms
    by (simp add: h_open_run_def bindE_def open_run_def guard_fails)
next
  case (Create st)
  then show ?thesis using assms
    by (auto intro!: none_of_fails simp: h_create_def not_open bundling_slot bundler_create_def simp del: split_paired_Ex)
next
  case Save
  then show ?thesis using assms
    by (auto intro!: none_of_fails simp: h_save_def bindE_def save_slot_def not_open)
next
  case Drop
  then show ?thesis using assms
    by (cases "hget (en_runs s) run")
      (auto intro!: none_of_fails simp: h_drop_def bundling_slot drop_bundle_def)
next
  case (Monitor obj name)
  then show ?thesis using assms
    by (cases "run_open s run") (auto intro!: none_of_fails simp: h_monitor_def guard_fails guard_passes)
next
  case (Custom name payload)
  then show ?thesis using assms
    by (auto intro!: none_of_fails simp: h_custom_def bindE_def getE_def failE_def hmem_def)
qed (use assms in \<open>auto intro!: none_of_fails simp: h_close_run_def h_declare_stream_def h_kickoff_def
  collect_object_def h_unmonitor_def h_checkpoint_def h_configure_def h_input_def h_install_suspender_def
  failE_def guard_fails\<close>)

theorem illegal_rejected_untouched_witness:
  "let s = snd (handle (Create ''primary'') (snd (handle (OpenRun no_metadata) fresh_engine)))
   in \<exists>e. handle_msg None Checkpoint s = (Err (Plan e), s)"
proof -
  let ?s = "snd (handle (Create ''primary'') (snd (handle (OpenRun no_metadata) fresh_engine)))"
  have "any_bundling ?s" by code_simp
  then have "illegal ?s None Checkpoint" by simp
  from illegal_rejected_untouched [OF this] show ?thesis unfolding Let_def .
qed

section \<open>Closing with a status that is none\<close>

text \<open>C39. A \<open>CloseRun\<close> whose exit status is not one of the event model's (\<open>halt\<close> excepted, which
  becomes \<open>abort\<close>) panics, and by then the run's slot is gone: the run is lost without a stop document.\<close>

theorem close_bad_status_panics:
  assumes "run_open s run" and "exit_status_from_str (normalize_exit_status status) = None"
  shows "\<exists>x s'. handle_msg run (CloseRun status reason) s = (Panic x, s')
      \<and> \<not> run_open s' run \<and> en_trace s' = en_trace s"
proof -
  obtain sl where "hget (en_runs s) run = Some sl" using assms(1) by (auto simp: run_open_def hmem_def)
  then show ?thesis using assms
    by (simp add: none_of_def seqE_def h_close_run_def guardE_def bindE_def close_run_if_open_def Let_def
        compose_stop_def bundle_stop_def not_open hmem_def run_open_def)
qed

theorem close_bad_status_panics_witness:
  "let s = snd (handle (OpenRun no_metadata) fresh_engine)
   in \<exists>x s'. handle_msg None (CloseRun ''no-run'' None) s = (Panic x, s')
      \<and> \<not> run_open s' None \<and> en_trace s' = en_trace s"
proof -
  let ?s = "snd (handle (OpenRun no_metadata) fresh_engine)"
  have "run_open ?s None" by code_simp
  moreover have "exit_status_from_str (normalize_exit_status ''no-run'') = None" by code_simp
  ultimately show ?thesis unfolding Let_def by (rule close_bad_status_panics)
qed

section \<open>A second caller\<close>





section \<open>Metadata\<close>

text \<open>The layers of a run's metadata, the strongest first.\<close>

definition layered :: "md \<Rightarrow> RunMetadata \<Rightarrow> md \<Rightarrow> string \<Rightarrow> json option" where
  "layered persistent meta per_call k =
    (case hget per_call k of Some v \<Rightarrow> Some v
     | None \<Rightarrow> (case hget (md_extra meta) k of Some v \<Rightarrow> Some v
     | None \<Rightarrow> (if k = ''plan_name'' \<and> md_plan_name meta \<noteq> None then Some (JString (the (md_plan_name meta)))
               else if k = ''plan_type'' then Some (JString ''generator'')
               else hget persistent k)))"

lemma merge_lookup:
  "hwf per_call \<Longrightarrow> hwf (md_extra meta) \<Longrightarrow>
   hget (merge_metadata persistent meta per_call) k = layered persistent meta per_call k"
  by (auto simp: merge_metadata_def Let_def layered_def hget_hextend_hwf split: option.splits)

lemma merge_hwf: "hwf persistent \<Longrightarrow> hwf (merge_metadata persistent meta per_call)"
  by (simp add: merge_metadata_def Let_def split: option.split)

definition start_docs :: "engine \<Rightarrow> RunStart list" where
  "start_docs s = filter_map (\<lambda>e. case e of Emitted (DocStart d) \<Rightarrow> Some d | _ \<Rightarrow> None) (en_trace s)"

lemma start_docs_push [simp]:
  "call_effect e \<Longrightarrow> start_docs (push e s) = start_docs s"
  "start_docs (push (Emitted (DocStart d)) s) = d # start_docs s"
  "start_docs (push (Emitted (DocEvent ev)) s) = start_docs s"
  "start_docs (push (Emitted (DocDescriptor ds)) s) = start_docs s"
  by (cases e) (simp_all add: start_docs_def push_def)

lemma start_docs_frame [simp]:
  "start_docs (upd_control f s) = start_docs s" "start_docs (put_slot run sl s) = start_docs s"
  "start_docs (s\<lparr> en_uids := n \<rparr>) = start_docs s" "start_docs (s\<lparr> en_md := m \<rparr>) = start_docs s"
  "start_docs (s\<lparr> en_scan_id := k \<rparr>) = start_docs s"
  "start_docs (s\<lparr> en_last_msg_result := r \<rparr>) = start_docs s"
  by (simp_all add: start_docs_def upd_control_def put_slot_def)

lemma start_docs_request: "start_docs (apply_request r s) = start_docs s"
proof -
  have "start_docs (dispatch_subscribers doc t) = start_docs t" for doc t
  proof -
    have "start_docs (fold (\<lambda>i. push (Notified i doc)) is t) = start_docs t" for "is"
      by (induction "is" arbitrary: t) simp_all
    then show ?thesis by (simp add: dispatch_subscribers_def)
  qed
  then show ?thesis
    by (cases r) (simp_all add: deliver_reading_def pump_event_def Let_def split_beta split: option.splits)
qed

interpretation sd: request_frame start_docs
  by unfold_locales (simp_all add: start_docs_request)

lemma broadcast_Ok: "broadcast doc s = (Ok u, s1) \<longleftrightarrow> s1 = snd (broadcast doc s)"
  by (auto simp: broadcast_def deliverE_def seqE_def bindE_def awaitE_def modE_def Let_def)

lemma broadcast_docs:
  "start_docs (snd (broadcast (DocStart d) s)) = d # start_docs s"
  "start_docs (snd (broadcast (DocDescriptor ds) s)) = start_docs s"
  by (simp_all add: broadcast_def sd.view_deliverE)

lemma install_run_docs: "install_run run start s = (Ok d, s1) \<Longrightarrow> start_docs s1 = start_docs s"
  by (auto simp: install_run_def Let_def split_beta split: if_splits)

lemma announce_run_docs:
  "broadcast (DocStart start) s = (Ok u, s1) \<Longrightarrow> install_run run start s1 = (Ok d, s2) \<Longrightarrow>
   (case d of None \<Rightarrow> retE () | Some desc \<Rightarrow> broadcast (DocDescriptor desc)) s2 = (Ok v, s') \<Longrightarrow>
   start_docs s' = start # start_docs s"
  by (auto simp: leaf_Ok broadcast_Ok broadcast_docs dest!: install_run_docs split: option.splits)

lemma resolve_scan_docs:
  "resolve_scan_id meta m s = (Ok n, s1) \<Longrightarrow> start_docs s1 = start_docs s \<and> en_md s1 = en_md s
     \<and> en_md_normalizer s1 = en_md_normalizer s \<and> (md_scan_id meta = Some k \<longrightarrow> n = k)"
  by (auto simp: resolve_scan_id_def monad_defs split: option.splits if_splits outcome.splits)

text \<open>C9. What an \<open>OpenRun\<close> of the default run (not one wrapped in \<open>InRun\<close>) that succeeds announces, on an engine without a
  metadata normalizer: exactly one start document, under the uid
  the handler returns, with the scan id of the message when it has one; and its metadata are
  the layers in the documented precedence: per-call over the message's extras over the computed plan name
  and type over the engine's persistent metadata, with the scan id added where no layer names one.\<close>

theorem start_document_metadata:
  assumes "handle (OpenRun meta) s = (Ok r, s')" and "\<not> en_md_normalizer s"
    and "hwf (en_md s)" and "hwf (md_extra meta)" and "hwf (en_per_call_md s)"
  shows "\<exists>d n. start_docs s' = d # start_docs s \<and> r = Some (rs_uid d) \<and> rs_scan_id d = Some n
    \<and> (\<forall>k. md_scan_id meta = Some k \<longrightarrow> n = k)
    \<and> (\<forall>k. hget (rs_extra d) k =
        (case layered (en_md s) meta (en_per_call_md s) k of Some v \<Rightarrow> Some v
         | None \<Rightarrow> if k = ''scan_id'' then Some (json_u64 n) else None))"
proof -
  let ?m0 = "merge_metadata (en_md s) meta (en_per_call_md s)"
  obtain uid s1 where opened: "open_run None meta s = (Ok uid, s1)" and r: "r = Some uid"
    and s': "start_docs s' = start_docs s1"
    using assms(1) by (auto simp: h_open_run_def set_result_def runs_ok)
  note steps = opened [unfolded open_run_def Let_def runs_ok]
  obtain n s2 where scan: "resolve_scan_id meta ?m0 s = (Ok n, s2)" using steps by blast
  note kept = resolve_scan_docs [OF scan]
  let ?m1 = "if hmem ''scan_id'' ?m0 then ?m0 else hput ''scan_id'' (json_u64 n) ?m0"
  let ?d = "\<lambda>u t. (bundle_start u t (Some n) None)\<lparr> rs_extra := hextend (rs_extra (bundle_start u t (Some n) None)) ?m1 \<rparr>"
  obtain u t where docs: "start_docs s1 = ?d u t # start_docs s" and uid: "uid = u"
    using steps scan kept assms(2)
    by (auto simp: runs_ok fresh_uid_def nowE_def dest!: announce_run_docs)
  have "hget (rs_extra (?d u t)) k = hget ?m1 k" for k
    using hget_hextend_hwf [of ?m1 "[]" k] merge_hwf [OF assms(3)]
    by (simp add: bundle_start_def split: option.split)
  then have "\<forall>k. hget (rs_extra (?d u t)) k = (case layered (en_md s) meta (en_per_call_md s) k of Some v \<Rightarrow> Some v
         | None \<Rightarrow> if k = ''scan_id'' then Some (json_u64 n) else None)"
    unfolding merge_lookup [OF assms(5,4), symmetric] by (auto simp: hmem_def split: option.split)
  moreover have "r = Some (rs_uid (?d u t)) \<and> rs_scan_id (?d u t) = Some n"
    using r uid by (simp add: bundle_start_def)
  moreover have "\<forall>k. md_scan_id meta = Some k \<longrightarrow> n = k" using kept by blast
  ultimately show ?thesis using docs s' by (intro exI [of _ "?d u t"] exI [of _ n]) (simp only: simp_thms)
qed

definition documented :: RunMetadata where
  "documented = \<lparr> md_scan_id = Some 12, md_extra = [(''user'', JString ''c'')], md_plan_name = Some ''count'' \<rparr>"

lemma is_ok_pair: "is_ok (fst x) \<Longrightarrow> \<exists>r. x = (Ok r, snd x)"
  by (cases x; cases "fst x") auto

theorem start_document_metadata_witness:
  "\<exists>d. start_docs (snd (handle (OpenRun documented) fresh_engine)) = [d] \<and> rs_scan_id d = Some 12
     \<and> hget (rs_extra d) ''user'' = Some (JString ''c'') \<and> hget (rs_extra d) ''plan_name'' = Some (JString ''count'')"
proof -
  have "is_ok (fst (handle (OpenRun documented) fresh_engine))" by code_simp
  then obtain r where run: "handle (OpenRun documented) fresh_engine
      = (Ok r, snd (handle (OpenRun documented) fresh_engine))" using is_ok_pair by blast
  have empty: "\<not> en_md_normalizer fresh_engine" "hwf (en_md fresh_engine)" "hwf (md_extra documented)"
      "hwf (en_per_call_md fresh_engine)" "start_docs fresh_engine = []" "md_scan_id documented = Some 12"
    by (simp_all add: fresh_engine_def engine_new_def documented_def hwf_def start_docs_def)
  have "layered (en_md fresh_engine) documented (en_per_call_md fresh_engine) ''user'' = Some (JString ''c'')"
    "layered (en_md fresh_engine) documented (en_per_call_md fresh_engine) ''plan_name'' = Some (JString ''count'')"
    by code_simp+
  then show ?thesis using start_document_metadata [OF run empty(1-4)] empty(5,6) by fastforce
qed

section \<open>Rewinding\<close>

fun pull_n :: "nat \<Rightarrow> plan \<Rightarrow> engine \<Rightarrow> (Msg \<times> bool) list \<times> plan \<times> engine" where
  "pull_n 0 p s = ([], p, s)"
| "pull_n (Suc k) p s =
     (case pull_msg p None s of
        (Ok (Some (m, owed, p1)), s1) \<Rightarrow> (case pull_n k p1 s1 of (ms, p2, s2) \<Rightarrow> ((m, owed) # ms, p2, s2))
      | (_, s1) \<Rightarrow> ([], p, s1))"

lemma pull_replay:
  "k \<le> length (en_replay_queue s) \<Longrightarrow>
   pull_n k p s = (map (\<lambda>m. (m, False)) (take k (en_replay_queue s)), p,
     s\<lparr> en_replay_queue := drop k (en_replay_queue s) \<rparr>)"
proof (induction k arbitrary: s)
  case (Suc k)
  then obtain m ms where "en_replay_queue s = m # ms" by (cases "en_replay_queue s") auto
  then show ?case using Suc.prems Suc.IH [of "s\<lparr> en_replay_queue := ms \<rparr>"] by (simp add: pull_msg_def)
qed simp

lemma arm_rewind_queue:
  "en_replay_queue (arm_rewind s) = en_replay_queue s @ en_msg_cache s" "en_msg_cache (arm_rewind s) = []"
  by (simp_all add: arm_rewind_def Let_def)

text \<open>C10. A resume replays what was cached since the last checkpoint: after the rewind is armed, the
  next messages handled are the replay already pending and then the cached messages, in order and
  with no reply owed, before the plan is polled again; and the cache is empty, so a second pause during
  the replay gets back only what has not been replayed yet: the messages replayed before it are lost.\<close>

theorem rewind_replays_cache:
  assumes "k \<le> length (en_replay_queue s @ en_msg_cache s)"
  shows "fst (pull_n (length (en_replay_queue s @ en_msg_cache s)) p (arm_rewind s))
      = map (\<lambda>m. (m, False)) (en_replay_queue s @ en_msg_cache s)
    \<and> (case pull_n k p (arm_rewind s) of (_, p1, s1) \<Rightarrow>
         p1 = p \<and> en_trace s1 = en_trace s
         \<and> en_replay_queue (arm_rewind s1) = drop k (en_replay_queue s @ en_msg_cache s))"
  using assms
  by (simp add: pull_replay arm_rewind_queue) (simp add: arm_rewind_def Let_def)

definition cached_engine :: engine where
  "cached_engine = fresh_engine\<lparr> en_rewindable := True, en_msg_cache := [Create ''primary'', Read detector, Save] \<rparr>"

theorem rewind_replays_cache_witness:
  "en_replay_queue (arm_rewind (snd (snd (pull_n 2 (plan_of []) (arm_rewind cached_engine))))) = [Save]"
  using rewind_replays_cache [of 2 cached_engine "plan_of []"]
  by (simp add: cached_engine_def fresh_engine_def engine_new_def split_beta)

section \<open>Waiting for a group\<close>

text \<open>What a wait reports for a failed status.\<close>

fun failure_of :: "StatusError \<Rightarrow> BsrsError" where
  "failure_of StCancelled = Cancelled"
| "failure_of StTimeout = Status StTimeout"
| "failure_of (StFailed m) = Backend m"

text \<open>C11. How a wait for a status group that has members ends. When every member resolves it reports done and the
  group is gone; when a member fails it reports that member's failure (its cancellation as \<open>Cancelled\<close>, its own
  timeout as \<open>Status\<close>, its message as \<open>Backend\<close>); on a timeout that is an error it reports
  the timeout; on a move-on timeout it reports not done and the group has all its members
  back, so that a later wait sees them again; and when nothing ends it, it hangs or, with the run's token cancelled,
  reports \<open>Cancelled\<close>. No other group is touched, whatever else happens meanwhile.\<close>

theorem wait_group_outcomes:
  assumes "hget (en_groups s) g = Some ms" and "ms \<noteq> []"
    and "res = snd (w_park (en_world s) (Parked 0 # en_trace s) (ParkAll ms))"
    and "wait_group g error_on_timeout timeout s = (r, s')"
  shows "(\<forall>u. res = Resolved u \<longrightarrow> r = Ok True \<and> hget (en_groups s') g = None)
    \<and> (\<forall>f. res = StatusFailed f \<longrightarrow> r = Err (failure_of f) \<and> hget (en_groups s') g = None)
    \<and> (\<forall>d. res = TimedOut \<and> timeout = Some d \<longrightarrow>
         (if error_on_timeout then r = Err (Timeout d) \<and> hget (en_groups s') g = None
          else r = Ok False \<and> hget (en_groups s') g = Some ms))
    \<and> (res = Never \<longrightarrow>
         r = (if rc_cancelled (ct_ctl (en_control s')) then Err Cancelled else Hang) \<and> hget (en_groups s') g = None)
    \<and> (\<forall>g'. g' \<noteq> g \<longrightarrow> hget (en_groups s') g' = hget (en_groups s) g')"
proof -
  let ?s0 = "s\<lparr> en_groups := hdel g (en_groups s) \<rparr>"
  obtain rs where park: "w_park (en_world s) (Parked 0 # en_trace s) (ParkAll ms) = (rs, res)"
    using assms(3) by (metis prod.collapse)
  let ?s1 = "fold apply_request rs (push (Parked 0) ?s0)"
  have groups: "en_groups ?s1 = hdel g (en_groups s)"
    using base_fields(4) [of ?s1 ?s0] rg.view_requests [of rs "push (Parked 0) ?s0"] by simp
  have parked: "parkE (ParkAll ms) Ok ?s0 = (if res = Never
      then (if rc_cancelled (ct_ctl (en_control ?s1)) then Err Cancelled else Hang, ?s1) else (Ok res, ?s1))"
    using park by (simp add: parkE_def Let_def push_def)
  have wait: "(r, s') = bindE (parkE (ParkAll ms) Ok) (\<lambda>res. case (res, timeout) of
          (TimedOut, Some d) \<Rightarrow> if error_on_timeout then failE (Timeout d)
            else seqE (modE (\<lambda>s. s\<lparr> en_groups := happend g ms (en_groups s) \<rparr>)) (retE False)
        | _ \<Rightarrow> seqE (liftE (status_outcome res)) (retE True)) ?s0"
    using assms(2) by (simp only: assms(4) [symmetric] wait_group_def bind_getE seq_modE assms(1) option.case if_False)
  show ?thesis
  proof (cases res)
    case (StatusFailed f)
    then show ?thesis using wait groups parked
      by (cases f) (auto simp: bindE_def seqE_def liftE_def retE_def status_outcome_def)
  qed (use wait groups parked in \<open>auto simp: bindE_def seqE_def liftE_def retE_def modE_def failE_def
        status_outcome_def split: option.splits if_splits\<close>)
qed

definition slow_engine :: engine where
  "slow_engine = engine_new (quiet_world\<lparr> w_park := (\<lambda>_ _. ([], TimedOut)) \<rparr>)\<lparr> en_groups := [(''g'', [3, 4])] \<rparr>"

theorem wait_group_outcomes_witness:
  "fst (wait_group ''g'' False (Some 5) slow_engine) = Ok False
    \<and> hget (en_groups (snd (wait_group ''g'' False (Some 5) slow_engine))) ''g'' = Some [3, 4]"
  using wait_group_outcomes [of slow_engine "''g''" "[3, 4]" TimedOut False "Some 5"
      "fst (wait_group ''g'' False (Some 5) slow_engine)" "snd (wait_group ''g'' False (Some 5) slow_engine)"]
  by (simp add: slow_engine_def engine_new_def quiet_world_def)

section \<open>Cleaning up\<close>

definition calls :: "engine \<Rightarrow> (string \<times> device) list" where
  "calls s = filter_map (\<lambda>e. case e of Called m d \<Rightarrow> Some (m, d) | _ \<Rightarrow> None) (en_trace s)"

text \<open>Device calls return or fail, they do not panic or hang.\<close>

definition answering :: "world \<Rightarrow> bool" where
  "answering w = (\<forall>t m d. w_unit_call w t m d = Ok () \<or> (\<exists>e. w_unit_call w t m d = Err e))"

lemma calls_frame [simp]:
  "calls (s\<lparr> en_uids := n \<rparr>) = calls s" "calls (put_slot run sl s) = calls s" "calls (upd_control f s) = calls s"
  "calls (push (Called m d) s) = (m, d) # calls s" "calls (push (Emitted doc) s) = calls s"
  "calls (push (Notified i doc) s) = calls s" "calls (push (Hooked a b c) s) = calls s"
  by (simp_all add: calls_def put_slot_def upd_control_def push_def)

lemma calls_dispatch [simp]: "calls (dispatch_subscribers doc s) = calls s"
proof -
  have "calls (fold (\<lambda>i. push (Notified i doc)) is s) = calls s" for "is"
    by (induction "is" arbitrary: s) simp_all
  then show ?thesis by (simp add: dispatch_subscribers_def)
qed

lemma calls_request: "calls (apply_request r s) = calls s"
  by (cases r) (simp_all add: deliver_reading_def pump_event_def Let_def split_beta split: option.splits)

lemma calls_requests: "calls (fold apply_request rs s) = calls s"
  by (induction rs arbitrary: s) (simp_all add: calls_request)

lemma ignored_call:
  assumes "answering (en_world s)"
  shows "\<exists>s'. ignoreE (unit_call m d) s = (Ok (), s') \<and> calls s' = (m, d) # calls s \<and> base s' = base s"
proof -
  let ?s1 = "fold apply_request (w_requests (en_world s) (Called m d # en_trace s)) (push (Called m d) s)"
  have "unit_call m d s = (w_unit_call (en_world s) (Called m d # en_trace s) m d, ?s1)"
    by (simp add: unit_call_def callE_def Let_def bindE_def awaitE_def liftE_def push_def)
  moreover have "w_unit_call (en_world s) (Called m d # en_trace s) m d = Ok ()
      \<or> (\<exists>e. w_unit_call (en_world s) (Called m d # en_trace s) m d = Err e)"
    using assms by (simp add: answering_def)
  moreover have "calls ?s1 = (m, d) # calls s \<and> base ?s1 = base s"
    by (simp add: calls_requests rg.view_requests)
  ultimately show ?thesis by (auto simp: ignoreE_def)
qed

lemma walk_calls:
  assumes "answering (en_world s)"
  shows "\<exists>s'. forE ds (\<lambda>d. ignoreE (unit_call m d)) s = (Ok (), s')
      \<and> calls s' = rev (map (Pair m) ds) @ calls s \<and> base s' = base s"
  using assms
proof (induction ds arbitrary: s)
  case Nil
  then show ?case by (simp add: retE_def)
next
  case (Cons d ds)
  obtain s1 where one: "ignoreE (unit_call m d) s = (Ok (), s1)" "calls s1 = (m, d) # calls s" "base s1 = base s"
    using ignored_call [OF Cons.prems] by blast
  have "answering (en_world s1)" using Cons.prems base_fields(6) [OF one(3)] by simp
  then obtain s2 where "forE ds (\<lambda>d. ignoreE (unit_call m d)) s1 = (Ok (), s2)"
    "calls s2 = rev (map (Pair m) ds) @ calls s1" "base s2 = base s1"
    using Cons.IH by blast
  then show ?case using one by (intro exI [of _ s2]) (simp add: seqE_def bindE_def)
qed

lemma subscribers_after: "en_subscribers (fold unsubscribe xs s) = filter (\<lambda>(i, _, _). i \<notin> set xs) (en_subscribers s)"
  by (induction xs arbitrary: s) (auto simp: unsubscribe_def filter_filter split_beta intro: filter_cong)

lemma unsubscribe_frame [simp]:
  "calls (fold unsubscribe xs s) = calls s" "en_world (fold unsubscribe xs s) = en_world s"
  "en_msg_cache (fold unsubscribe xs s) = en_msg_cache s" "en_replay_queue (fold unsubscribe xs s) = en_replay_queue s"
  "en_rewindable (fold unsubscribe xs s) = en_rewindable s" "en_groups (fold unsubscribe xs s) = en_groups s"
  "en_staged (fold unsubscribe xs s) = en_staged s" "en_movables (fold unsubscribe xs s) = en_movables s"
  "en_flyables (fold unsubscribe xs s) = en_flyables s" "en_contingency (fold unsubscribe xs s) = en_contingency s"
  by (induction xs arbitrary: s) (simp_all add: unsubscribe_def calls_def)

lemma registers_taken [simp]:
  "calls (snd (take_registers s)) = calls s" "en_world (snd (take_registers s)) = en_world s"
  "en_msg_cache (snd (take_registers s)) = en_msg_cache s"
  "en_replay_queue (snd (take_registers s)) = en_replay_queue s"
  "en_rewindable (snd (take_registers s)) = en_rewindable s" "en_groups (snd (take_registers s)) = en_groups s"
  "en_subscribers (snd (take_registers s)) = en_subscribers s" "en_staged (snd (take_registers s)) = []"
  "en_movables (snd (take_registers s)) = []" "en_flyables (snd (take_registers s)) = []"
  "en_contingency (snd (take_registers s)) = []"
  by (simp_all add: take_registers_def calls_def)

text \<open>C3. The cleanup of a run undoes everything the run left behind, whatever fails on the way: the
  movables touched are stopped first, then the flyers, then every device still staged is unstaged, each once
  and in the registers' order; no run, staged device, contingency region or per-call metadata is
  left; exactly the temporary subscribers are gone; and the engine can be claimed again. What it leaves alone
  are the rewind cache, the replay queue, the rewindable flag and the status groups.\<close>

theorem cleanup_undoes_the_run:
  assumes "answering (en_world s)"
  shows "\<exists>s'. cleanup s = (Ok (), s')
    \<and> calls s' = rev (map (Pair ''stop_on_pause'') (hvalues (en_movables s) @ hvalues (en_flyables s))
                     @ map (Pair ''unstage'') (en_staged s)) @ calls s
    \<and> en_runs s' = [] \<and> en_staged s' = [] \<and> en_movables s' = [] \<and> en_flyables s' = []
    \<and> en_contingency s' = [] \<and> en_per_call_md s' = []
    \<and> en_subscribers s' = filter (\<lambda>(i, _, _). i \<notin> set (en_temp_subscribers s)) (en_subscribers s)
    \<and> \<not> rc_is_running (ct_ctl (en_control s'))
    \<and> en_msg_cache s' = en_msg_cache s \<and> en_replay_queue s' = en_replay_queue s
    \<and> en_rewindable s' = en_rewindable s \<and> en_groups s' = en_groups s"
proof -
  let ?t = "fold unsubscribe (en_temp_subscribers s) (snd (take_registers s))"
  have t: "answering (en_world ?t)" "calls ?t = calls s" using assms by simp_all
  obtain s1 where one: "stop_walk (hvalues (en_movables s)) ?t = (Ok (), s1)"
    "calls s1 = rev (map (Pair ''stop_on_pause'') (hvalues (en_movables s))) @ calls s" "base s1 = base ?t"
    using walk_calls [OF t(1)] t(2) unfolding stop_walk_def by metis
  have w1: "answering (en_world s1)" using t base_fields(6) [OF one(3)] by simp
  obtain s2 where two: "stop_walk (hvalues (en_flyables s)) s1 = (Ok (), s2)"
    "calls s2 = rev (map (Pair ''stop_on_pause'') (hvalues (en_flyables s))) @ calls s1" "base s2 = base s1"
    using walk_calls [OF w1] unfolding stop_walk_def by metis
  have w2: "answering (en_world s2)" using w1 base_fields(6) [OF two(3)] by simp
  obtain s3 where three: "forE (en_staged s) (\<lambda>d. ignoreE (unit_call ''unstage'' d)) s2 = (Ok (), s3)"
    "calls s3 = rev (map (Pair ''unstage'') (en_staged s)) @ calls s2" "base s3 = base s2"
    using walk_calls [OF w2] by metis
  have run: "cleanup s = (Ok (), finish_run s3)"
    using one(1) two(1) three(1) by (simp add: cleanup_def take_registers_def seqE_def bindE_def modE_def)
  have "fst (ledger (finish_run s3)) = []" using cleanup_ledger [of s] run by simp
  then have runs: "en_runs (finish_run s3) = []" by (simp add: runs_empty_ledger del: ledger_finish)
  note fields = base_fields [OF three(3) [unfolded two(3) one(3)]]
  have fin: "calls (finish_run s3) = calls s3" "en_staged (finish_run s3) = en_staged s3"
    "en_movables (finish_run s3) = en_movables s3" "en_flyables (finish_run s3) = en_flyables s3"
    "en_contingency (finish_run s3) = en_contingency s3" "en_per_call_md (finish_run s3) = []"
    "en_subscribers (finish_run s3) = en_subscribers s3" "\<not> rc_is_running (ct_ctl (en_control (finish_run s3)))"
    "en_msg_cache (finish_run s3) = en_msg_cache s3" "en_replay_queue (finish_run s3) = en_replay_queue s3"
    "en_rewindable (finish_run s3) = en_rewindable s3" "en_groups (finish_run s3) = en_groups s3"
    by (simp_all add: finish_run_def Let_def upd_control_def push_def calls_def end_run_def upd_ctl_def)
  show ?thesis
    by (intro exI [of _ "finish_run s3"] conjI)
      (simp_all add: run runs fin fields subscribers_after one(2) two(2) three(2) del: fold_simps)
qed

definition busy_engine :: engine where
  "busy_engine = fresh_engine\<lparr> en_staged := [detector], en_movables := [(''m'', \<lparr> dv_id = 1, dv_name = ''m'' \<rparr>)],
     en_rewindable := True, en_msg_cache := [Null] \<rparr>"

theorem cleanup_undoes_the_run_witness:
  "\<exists>s'. cleanup busy_engine = (Ok (), s') \<and> en_staged s' = [] \<and> en_msg_cache s' = [Null]
    \<and> calls s' = [(''unstage'', detector), (''stop_on_pause'', \<lparr> dv_id = 1, dv_name = ''m'' \<rparr>)]"
  using cleanup_undoes_the_run [of busy_engine]
  by (auto simp: busy_engine_def fresh_engine_def engine_new_def answering_def quiet_world_def calls_def)

end
