(* ===== verification/Status.thy ===== *)
theory Status
  imports Documents
begin

text \<open>
  \<open>Status\<close> and \<open>StatusSetter\<close> (\<open>core/status.rs\<close>): the write-once completion cells behind every
  wait. The statuses live in a heap, a list of cells addressed by their \<open>Arc\<close>; \<open>finish\<close> takes the waiters
  of a cell and runs them, and a waiter of an \<open>and\<close> status may finish another cell, so the
  running waiters are an explicit stack of actions, in the depth-first order of the calls. User
  callbacks and wakers are identities: running one is an entry of the log. The tasks of the timers
  (timeout and settle time) are the list \<open>hp_timers\<close>; a timer firing is an operation of its own.
  An operation runs to its end before the next one: the source holds no lock while
  callbacks run, and the interleavings of two finishing threads are not modelled.
\<close>

section \<open>Cells\<close>

type_synonym end_state = "StatusError option"

datatype callback = User nat | Part nat nat

datatype phase = Pending "callback list" "nat list" | Done end_state

record WatcherUpdate =
  wu_current :: f64
  wu_initial :: f64
  wu_target :: f64
  wu_name :: "string option"
  wu_unit :: "string option"
  wu_precision :: "int option"
  wu_fraction :: "f64 option"
  wu_time_elapsed :: "f64 option"
  wu_time_remaining :: "f64 option"

definition watcher_update_new :: "f64 \<Rightarrow> f64 \<Rightarrow> f64 \<Rightarrow> WatcherUpdate" where
  "watcher_update_new current initial target =
     \<lparr> wu_current = current, wu_initial = initial, wu_target = target, wu_name = None, wu_unit = None,
       wu_precision = None, wu_fraction = None, wu_time_elapsed = None, wu_time_remaining = None \<rparr>"

record cell =
  ce_phase :: phase
  ce_progress :: f64
  ce_watcher :: "WatcherUpdate option"
  ce_observers :: "WatcherUpdate list list"
  ce_cancel :: bool
  ce_settles :: bool

datatype timer = TimeoutTimer nat | SettleTimer nat

datatype entry = Fired nat nat end_state | Woken nat

record heap =
  hp_cells :: "cell list"
  hp_counters :: "nat list"
  hp_timers :: "timer list"
  hp_log :: "entry list"

definition heap_new :: heap where
  "heap_new = \<lparr> hp_cells = [], hp_counters = [], hp_timers = [], hp_log = [] \<rparr>"

definition phase_of :: "heap \<Rightarrow> nat \<Rightarrow> phase option" where
  "phase_of h s = (if s < length (hp_cells h) then Some (ce_phase (hp_cells h ! s)) else None)"

definition upd_cell :: "nat \<Rightarrow> (cell \<Rightarrow> cell) \<Rightarrow> heap \<Rightarrow> heap" where
  "upd_cell s f h = h\<lparr> hp_cells := (hp_cells h)[s := f (hp_cells h ! s)] \<rparr>"

definition set_phase :: "nat \<Rightarrow> phase \<Rightarrow> heap \<Rightarrow> heap" where
  "set_phase s p = upd_cell s (\<lambda>c. c\<lparr> ce_phase := p \<rparr>)"

definition log :: "entry \<Rightarrow> heap \<Rightarrow> heap" where
  "log e h = h\<lparr> hp_log := e # hp_log h \<rparr>"

section \<open>Finishing\<close>

text \<open>An action on the stack: finish a status, run a callback of a finished status, wake a task.\<close>

datatype action = Finish nat end_state | Fire nat callback end_state | Wake nat

definition phase_size :: "phase \<Rightarrow> nat" where
  "phase_size p = (case p of Pending cbs ws \<Rightarrow> 2 * length cbs + length ws | Done _ \<Rightarrow> 0)"

definition waiting :: "heap \<Rightarrow> nat" where
  "waiting h = sum_list (map (\<lambda>c. phase_size (ce_phase c)) (hp_cells h))"

fun action_size :: "action \<Rightarrow> nat" where
  "action_size (Fire _ _ _) = 2"
| "action_size _ = 1"

lemma waiting_finish:
  assumes "phase_of h s = Some p"
  shows "waiting (set_phase s (Done e) h) + phase_size p = waiting h"
proof -
  have s: "s < length (hp_cells h)" "p = ce_phase (hp_cells h ! s)"
    using assms by (auto simp: phase_of_def split: if_splits)
  have "sum_list (xs[i := y]) + xs ! i = sum_list xs + y" if "i < length xs" for xs :: "nat list" and i y
    using that by (induction xs arbitrary: i) (auto split: nat.splits simp: nth_Cons')
  from this [of s "map (\<lambda>c. phase_size (ce_phase c)) (hp_cells h)" 0] show ?thesis
    using s by (simp add: waiting_def set_phase_def upd_cell_def map_update phase_size_def)
qed

lemma waiting_pending:
  assumes "phase_of h s = Some (Pending cbs ws)"
  shows "waiting (set_phase s (Done e) h) + (2 * length cbs + length ws) = waiting h"
  using waiting_finish [OF assms, of e] by (simp add: phase_size_def)

lemma waiting_frame [simp]: "waiting (log e h) = waiting h" "waiting (h\<lparr> hp_counters := k \<rparr>) = waiting h"
  by (simp_all add: waiting_def log_def)

lemma sum_list_sizes [simp]:
  "sum_list (map (action_size \<circ> (\<lambda>cb. Fire s cb e)) cbs) = 2 * length cbs"
  "sum_list (map (action_size \<circ> Wake) ws) = length ws"
  by (induction cbs) (simp_all, induction ws, simp_all)

text \<open>One action: what it pushes on the stack, and the heap after it.\<close>

fun act :: "action \<Rightarrow> heap \<Rightarrow> action list \<times> heap" where
  "act (Finish s e) h =
     (case phase_of h s of
        Some (Pending cbs ws) \<Rightarrow> (map (\<lambda>cb. Fire s cb e) cbs @ map Wake ws, set_phase s (Done e) h)
      | _ \<Rightarrow> ([], h))"
| "act (Fire s (User k) e) h = ([], log (Fired s k e) h)"
| "act (Fire s (Part t c) e) h =
     (case e of
        Some _ \<Rightarrow> ([Finish t e], h)
      | None \<Rightarrow>
          (let prior = hp_counters h ! c;
               h1 = h\<lparr> hp_counters := (hp_counters h)[c := prior - 1] \<rparr>
           in (if prior = 1 then [Finish t None] else [], h1)))"
| "act (Wake w) h = ([], log (Woken w) h)"

lemma act_measure:
  "act a h = (new, h') \<Longrightarrow> waiting h' + sum_list (map action_size new) < waiting h + action_size a"
  by (cases "(a, h)" rule: act.cases)
    (auto simp: Let_def waiting_pending split: option.splits phase.splits if_splits)

function run_actions :: "action list \<Rightarrow> heap \<Rightarrow> heap" where
  "run_actions [] h = h"
| "run_actions (a # as) h = (let (new, h') = act a h in run_actions (new @ as) h')"
  by pat_completeness auto

termination
proof (relation "measure (\<lambda>(as, h). waiting h + sum_list (map action_size as))")
  fix a as h x new h'
  assume "x = act a h" "(new, h') = x"
  then show "((new @ as, h'), (a # as, h)) \<in> measure (\<lambda>(as, h). waiting h + sum_list (map action_size as))"
    using act_measure [of a h new h'] by simp
qed simp

text \<open>An invariant of the heap and the stack that every action keeps holds when the stack is empty.\<close>

lemma run_actions_invariant:
  assumes "P h as"
    and "\<And>a as h new h'. P h (a # as) \<Longrightarrow> act a h = (new, h') \<Longrightarrow> P h' (new @ as)"
  shows "P (run_actions as h) []"
  using assms(1)
proof (induction as h rule: run_actions.induct)
  case (2 a as h)
  then show ?case using assms(2) by (cases "act a h") simp
qed simp

definition finish_status :: "nat \<Rightarrow> end_state \<Rightarrow> heap \<Rightarrow> heap" where
  "finish_status s e = run_actions [Finish s e]"

section \<open>Operations\<close>

definition status_end :: "heap \<Rightarrow> nat \<Rightarrow> end_state option" where
  "status_end h s = (case phase_of h s of Some (Done e) \<Rightarrow> Some e | _ \<Rightarrow> None)"

definition with_timeout :: "bool \<Rightarrow> bool \<Rightarrow> heap \<Rightarrow> nat \<times> heap" where
  "with_timeout timed settles h =
     (let s = length (hp_cells h)
      in (s, h\<lparr> hp_cells := hp_cells h @ [\<lparr> ce_phase = Pending [] [], ce_progress = 0, ce_watcher = None,
                  ce_observers = [], ce_cancel = False, ce_settles = settles \<rparr>],
               hp_timers := hp_timers h @ (if timed then [TimeoutTimer s] else []) \<rparr>))"

definition status_new :: "heap \<Rightarrow> nat \<times> heap" where
  "status_new = with_timeout False False"

definition add_callback :: "nat \<Rightarrow> callback \<Rightarrow> heap \<Rightarrow> heap" where
  "add_callback s cb h =
     (case phase_of h s of
        Some (Pending cbs ws) \<Rightarrow> set_phase s (Pending (cbs @ [cb]) ws) h
      | Some (Done e) \<Rightarrow> run_actions [Fire s cb e] h
      | None \<Rightarrow> h)"

definition setter_success :: "nat \<Rightarrow> heap \<Rightarrow> heap" where
  "setter_success s h =
     (if s < length (hp_cells h) \<and> ce_settles (hp_cells h ! s) then h\<lparr> hp_timers := hp_timers h @ [SettleTimer s] \<rparr>
      else finish_status s None h)"

definition setter_fail :: "nat \<Rightarrow> StatusError \<Rightarrow> heap \<Rightarrow> heap" where
  "setter_fail s err = finish_status s (Some err)"

definition status_cancel :: "nat \<Rightarrow> heap \<Rightarrow> heap" where
  "status_cancel s h = finish_status s (Some StCancelled) (upd_cell s (\<lambda>c. c\<lparr> ce_cancel := True \<rparr>) h)"

text \<open>The timer at a position of the list fires.\<close>

definition timer_fires :: "nat \<Rightarrow> heap \<Rightarrow> heap" where
  "timer_fires i h =
     (if i < length (hp_timers h) then
        (let h1 = h\<lparr> hp_timers := remove_nth i (hp_timers h) \<rparr>
         in case hp_timers h ! i of
              TimeoutTimer s \<Rightarrow> finish_status s (Some StTimeout) h1
            | SettleTimer s \<Rightarrow> finish_status s None h1)
      else h)"

definition status_done :: "heap \<Rightarrow> nat \<times> heap" where
  "status_done h = (let (s, h1) = status_new h in (s, setter_success s h1))"

definition status_failed :: "StatusError \<Rightarrow> heap \<Rightarrow> nat \<times> heap" where
  "status_failed err h = (let (s, h1) = status_new h in (s, setter_fail s err h1))"

definition and_status :: "nat \<Rightarrow> nat \<Rightarrow> heap \<Rightarrow> nat \<times> heap" where
  "and_status a b h =
     (let (t, h1) = status_new h;
          c = length (hp_counters h1);
          h2 = h1\<lparr> hp_counters := hp_counters h1 @ [2] \<rparr>
      in (t, add_callback b (Part t c) (add_callback a (Part t c) h2)))"

text \<open>\<open>Future::poll\<close> by the task \<open>w\<close>.\<close>

definition status_poll :: "nat \<Rightarrow> nat \<Rightarrow> heap \<Rightarrow> end_state option \<times> heap" where
  "status_poll s w h =
     (case phase_of h s of
        Some (Pending cbs ws) \<Rightarrow> (None, if w \<in> set ws then h else set_phase s (Pending cbs (ws @ [w])) h)
      | Some (Done e) \<Rightarrow> (Some e, h)
      | None \<Rightarrow> (None, h))"

definition done_state :: "heap \<Rightarrow> nat \<Rightarrow> bool" where
  "done_state h s = (status_end h s \<noteq> None)"

definition status_success :: "heap \<Rightarrow> nat \<Rightarrow> bool" where
  "status_success h s = (status_end h s = Some None)"

definition status_exception :: "heap \<Rightarrow> nat \<Rightarrow> StatusError option" where
  "status_exception h s = (case status_end h s of None \<Rightarrow> None | Some e \<Rightarrow> e)"

definition status_cancelled :: "heap \<Rightarrow> nat \<Rightarrow> bool" where
  "status_cancelled h s = (status_end h s = Some (Some StCancelled))"

text \<open>A handle remembers the two statuses an \<open>and\<close> status combines.\<close>

datatype status_handle = Handle (handle_cell: nat) "(status_handle \<times> status_handle) option"

fun handle_contains :: "status_handle \<Rightarrow> nat \<Rightarrow> bool" where
  "handle_contains (Handle _ None) s = False"
| "handle_contains (Handle _ (Some (l, r))) s =
     ((handle_cell l = s \<or> handle_contains l s) \<or> (handle_cell r = s \<or> handle_contains r s))"

section \<open>Progress\<close>

text \<open>The scalar progress, the producer's view of a cancellation request, and the guard that cancels
  its status when it is dropped.\<close>

definition setter_progress :: "nat \<Rightarrow> f64 \<Rightarrow> heap \<Rightarrow> heap" where
  "setter_progress s p = upd_cell s (\<lambda>c. c\<lparr> ce_progress := p \<rparr>)"

definition status_progress :: "heap \<Rightarrow> nat \<Rightarrow> f64" where
  "status_progress h s = ce_progress (hp_cells h ! s)"

definition is_cancelled :: "heap \<Rightarrow> nat \<Rightarrow> bool" where
  "is_cancelled h s = ce_cancel (hp_cells h ! s)"

definition guard_drop :: "nat \<Rightarrow> heap \<Rightarrow> heap" where
  "guard_drop = status_cancel"

text \<open>Every update goes to each observer's own queue and becomes the latest one; a missing elapsed
  time is filled in.\<close>

definition update_watcher :: "nat \<Rightarrow> WatcherUpdate \<Rightarrow> f64 \<Rightarrow> heap \<Rightarrow> heap" where
  "update_watcher s update elapsed =
     (let u = (if wu_time_elapsed update = None then update\<lparr> wu_time_elapsed := Some elapsed \<rparr> else update)
      in upd_cell s (\<lambda>c. c\<lparr> ce_progress := (case wu_fraction u of None \<Rightarrow> ce_progress c | Some f \<Rightarrow> f),
                            ce_observers := map (\<lambda>q. q @ [u]) (ce_observers c), ce_watcher := Some u \<rparr>))"

text \<open>An observer registers: a queue of its own, starting with the latest update if there is one.\<close>

definition observe_start :: "nat \<Rightarrow> heap \<Rightarrow> WatcherUpdate list \<times> heap" where
  "observe_start s h =
     ((case ce_watcher (hp_cells h ! s) of None \<Rightarrow> [] | Some u \<Rightarrow> [u]),
      upd_cell s (\<lambda>c. c\<lparr> ce_observers := ce_observers c @ [[]] \<rparr>) h)"

section \<open>Sequences of operations\<close>

datatype op =
    New bool bool | AddUser nat nat | Succeed nat | Fail nat StatusError | Cancel nat | Timer nat
  | And nat nat | Poll nat nat | Update nat WatcherUpdate f64

fun apply_op :: "op \<Rightarrow> heap \<Rightarrow> heap" where
  "apply_op (New timed settles) h = snd (with_timeout timed settles h)"
| "apply_op (AddUser s k) h = add_callback s (User k) h"
| "apply_op (Succeed s) h = setter_success s h"
| "apply_op (Fail s err) h = setter_fail s err h"
| "apply_op (Cancel s) h = status_cancel s h"
| "apply_op (Timer i) h = timer_fires i h"
| "apply_op (And a b) h = snd (and_status a b h)"
| "apply_op (Poll s w) h = snd (status_poll s w h)"
| "apply_op (Update s u t) h = update_watcher s u t h"

definition run_ops :: "op list \<Rightarrow> heap \<Rightarrow> heap" where
  "run_ops = fold apply_op"

subsection \<open>The shape of the heap\<close>

lemma phase_set [simp]:
  "phase_of (set_phase s p h) s' = (if s' = s \<and> s < length (hp_cells h) then Some p else phase_of h s')"
  by (simp add: phase_of_def set_phase_def upd_cell_def nth_list_update)

lemma phase_frame [simp]:
  "phase_of (log e h) s = phase_of h s" "phase_of (h\<lparr> hp_counters := k \<rparr>) s = phase_of h s"
  "phase_of (h\<lparr> hp_timers := t \<rparr>) s = phase_of h s"
  by (simp_all add: phase_of_def log_def)

lemma phase_upd_cell:
  assumes "\<And>c. ce_phase (f c) = ce_phase c"
  shows "phase_of (upd_cell i f h) s = phase_of h s"
proof (cases "i < length (hp_cells h)")
  case True
  then show ?thesis by (simp add: phase_of_def upd_cell_def nth_list_update assms)
qed (simp add: phase_of_def upd_cell_def list_update_beyond)

lemma phase_cancel [simp]: "phase_of (upd_cell i (\<lambda>c. c\<lparr> ce_cancel := b \<rparr>) h) s = phase_of h s"
  by (rule phase_upd_cell) simp

lemma phase_update_watcher [simp]: "phase_of (update_watcher i u t h) s = phase_of h s"
  unfolding update_watcher_def Let_def by (rule phase_upd_cell) simp

lemma phase_new [simp]:
  "phase_of (snd (with_timeout timed settles h)) s =
     (if s = length (hp_cells h) then Some (Pending [] []) else phase_of h s)"
  by (simp add: with_timeout_def Let_def phase_of_def nth_append)

lemma phase_Some_less: "phase_of h s = Some p \<Longrightarrow> s < length (hp_cells h)"
  by (simp add: phase_of_def split: if_splits)

lemma timer_fires_cases:
  "timer_fires i h = h \<or> (\<exists>ts s e. timer_fires i h = run_actions [Finish s e] (h\<lparr> hp_timers := ts \<rparr>))"
  by (auto simp: timer_fires_def finish_status_def Let_def split: timer.splits)

subsection \<open>An outcome is recorded once\<close>

lemma act_done: "act a h = (new, h') \<Longrightarrow> phase_of h s = Some (Done e) \<Longrightarrow> phase_of h' s = Some (Done e)"
  by (cases "(a, h)" rule: act.cases) (auto simp: Let_def split: option.splits phase.splits if_splits)

lemma run_actions_done: "phase_of h s = Some (Done e) \<Longrightarrow> phase_of (run_actions as h) s = Some (Done e)"
  by (rule run_actions_invariant [where P = "\<lambda>h _. phase_of h s = Some (Done e)"]) (auto dest: act_done)

lemma add_callback_done: "phase_of h s = Some (Done e) \<Longrightarrow> phase_of (add_callback s' cb h) s = Some (Done e)"
  by (auto simp: add_callback_def run_actions_done simp del: run_actions.simps split: option.splits phase.splits)

lemma apply_op_done: "phase_of h s = Some (Done e) \<Longrightarrow> phase_of (apply_op oper h) s = Some (Done e)"
proof (cases oper)
  case (Timer i)
  assume "phase_of h s = Some (Done e)"
  then show ?thesis using Timer timer_fires_cases [of i h] by (auto simp: run_actions_done simp del: run_actions.simps)
next
  case (And a b)
  assume "phase_of h s = Some (Done e)"
  then show ?thesis using And
    by (auto simp: and_status_def status_new_def Let_def split_beta dest: phase_Some_less intro!: add_callback_done)
qed (auto simp: add_callback_done setter_success_def setter_fail_def status_cancel_def finish_status_def
    status_poll_def run_actions_done dest: phase_Some_less split: option.splits phase.splits
    simp del: run_actions.simps)

lemma run_ops_done: "phase_of h s = Some (Done e) \<Longrightarrow> phase_of (run_ops ops h) s = Some (Done e)"
  unfolding run_ops_def by (induction ops arbitrary: h) (simp_all add: apply_op_done del: apply_op.simps)

subsection \<open>A callback runs once\<close>

fun fires :: "nat \<Rightarrow> callback \<Rightarrow> action \<Rightarrow> bool" where
  "fires s cb (Fire s' cb' _) = (s' = s \<and> cb' = cb)"
| "fires s cb _ = False"

fun fired :: "nat \<Rightarrow> nat \<Rightarrow> entry \<Rightarrow> bool" where
  "fired s k (Fired s' k' _) = (s' = s \<and> k' = k)"
| "fired s k _ = False"

definition queued :: "heap \<Rightarrow> nat \<Rightarrow> callback \<Rightarrow> nat" where
  "queued h s cb = (case phase_of h s of Some (Pending cbs _) \<Rightarrow> count_list cbs cb | _ \<Rightarrow> 0)"

definition runs_of :: "heap \<Rightarrow> nat \<Rightarrow> nat \<Rightarrow> nat" where
  "runs_of h s k = length (filter (fired s k) (hp_log h))"

lemma count_fires_map: "length (filter (fires s cb) (map (\<lambda>c. Fire s' c e) cbs)) = (if s' = s then count_list cbs cb else 0)"
  by (induction cbs) auto

lemmas count_fires_comp = count_fires_map [unfolded filter_map length_map]

lemma count_fires_wake: "filter (fires s cb) (map Wake ws) = []"
  by (induction ws) auto

lemma hp_log_frame [simp]:
  "hp_log (set_phase s p h) = hp_log h" "hp_log (log e h) = e # hp_log h" "hp_log (upd_cell s f h) = hp_log h"
  "hp_log (update_watcher s u tm h) = hp_log h"
  by (simp_all add: set_phase_def upd_cell_def log_def update_watcher_def Let_def)

definition owed_user :: "nat \<Rightarrow> nat \<Rightarrow> heap \<Rightarrow> action list \<Rightarrow> nat" where
  "owed_user s k h as = queued h s (User k) + runs_of h s k + length (filter (fires s (User k)) as)"

lemma act_conserve: "act a h = (new, h') \<Longrightarrow> owed_user s k h' (new @ as) = owed_user s k h (a # as)"
  by (cases "(a, h)" rule: act.cases)
    (auto simp: owed_user_def queued_def runs_of_def filter_map count_fires_comp count_fires_wake Let_def
      dest: phase_Some_less split: option.splits phase.splits if_splits)

lemma run_actions_conserve: "owed_user s k (run_actions as h) [] = owed_user s k h as"
  by (rule run_actions_invariant [where P = "\<lambda>h' as'. owed_user s k h' as' = owed_user s k h as"])
    (simp_all add: act_conserve)

text \<open>What ran, ran with the outcome of its status.\<close>

definition outcome_right :: "heap \<Rightarrow> action list \<Rightarrow> bool" where
  "outcome_right h as \<longleftrightarrow> (\<forall>s k e. Fired s k e \<in> set (hp_log h) \<longrightarrow> phase_of h s = Some (Done e))
     \<and> (\<forall>s cb e. Fire s cb e \<in> set as \<longrightarrow> phase_of h s = Some (Done e))"

lemma act_outcome:
  assumes "outcome_right h (a # as)" "act a h = (new, h')"
  shows "outcome_right h' (new @ as)"
proof (cases "(a, h)" rule: act.cases)
  case (1 s e h0)
  then have [simp]: "a = Finish s e" "h0 = h" by auto
  show ?thesis
  proof (cases "\<exists>cbs ws. phase_of h s = Some (Pending cbs ws)")
    case True
    then obtain cbs ws where p: "phase_of h s = Some (Pending cbs ws)" by blast
    then have new: "new = map (\<lambda>cb. Fire s cb e) cbs @ map Wake ws" "h' = set_phase s (Done e) h"
      using assms(2) by auto
    have keep: "phase_of h' s' = Some (Done e')" if "phase_of h s' = Some (Done e')" for s' e'
      using that p new by auto
    show ?thesis
      using assms(1) phase_Some_less [OF p] keep unfolding outcome_right_def new by auto
  next
    case False
    then show ?thesis
      using assms by (auto simp: outcome_right_def split: option.splits phase.splits)
  qed
qed (use assms in \<open>auto simp: outcome_right_def Let_def split: option.splits if_splits\<close>)

lemma run_actions_outcome: "outcome_right h as \<Longrightarrow> outcome_right (run_actions as h) []"
  by (rule run_actions_invariant [where P = outcome_right]) (auto intro: act_outcome)

fun registrations :: "nat \<Rightarrow> nat \<Rightarrow> op list \<Rightarrow> heap \<Rightarrow> nat" where
  "registrations s k [] h = 0"
| "registrations s k (oper # ops) h =
     (if oper = AddUser s k \<and> s < length (hp_cells h) then 1 else 0) + registrations s k ops (apply_op oper h)"

lemma phase_less_Some: "s < length (hp_cells h) \<Longrightarrow> \<exists>p. phase_of h s = Some p"
  by (simp add: phase_of_def)

lemma owed_frame:
  assumes "hp_log h' = hp_log h" "phase_of h' s = phase_of h s"
  shows "owed_user s k h' as = owed_user s k h as"
  using assms by (simp add: owed_user_def queued_def runs_of_def)

lemma owed_add_callback:
  "owed_user s k (add_callback s' cb h) []
     = owed_user s k h [] + (if s' = s \<and> cb = User k \<and> s < length (hp_cells h) then 1 else 0)"
proof (cases "phase_of h s'")
  case None
  then show ?thesis by (auto simp: add_callback_def dest: phase_less_Some)
next
  case (Some p)
  show ?thesis
  proof (cases p)
    case (Pending cbs ws)
    then show ?thesis
      using Some phase_Some_less [OF Some] by (auto simp: add_callback_def owed_user_def queued_def runs_of_def)
  next
    case (Done e)
    then show ?thesis
      using Some phase_Some_less [OF Some]
      by (simp add: add_callback_def run_actions_conserve del: run_actions.simps) (simp add: owed_user_def)
  qed
qed

lemma owed_finish [simp]: "owed_user s k (finish_status t e h) [] = owed_user s k h []"
  by (simp add: finish_status_def run_actions_conserve del: run_actions.simps) (simp add: owed_user_def)

lemma owed_more [simp]:
  "owed_user s k (h\<lparr> hp_timers := t \<rparr>) [] = owed_user s k h []"
  "owed_user s k (h\<lparr> hp_counters := n \<rparr>) [] = owed_user s k h []"
  "owed_user s k (upd_cell i (\<lambda>c. c\<lparr> ce_cancel := b \<rparr>) h) [] = owed_user s k h []"
  "owed_user s k (update_watcher i u tm h) [] = owed_user s k h []"
  "owed_user s k (snd (with_timeout timed settles h)) [] = owed_user s k h []"
proof -
  show "owed_user s k (update_watcher i u tm h) [] = owed_user s k h []"
    by (rule owed_frame) simp_all
  show "owed_user s k (snd (with_timeout timed settles h)) [] = owed_user s k h []"
    by (auto simp: owed_user_def queued_def runs_of_def with_timeout_def Let_def phase_of_def nth_append)
qed (rule owed_frame; simp)+

lemma owed_apply_op:
  "owed_user s k (apply_op oper h) []
     = owed_user s k h [] + (if oper = AddUser s k \<and> s < length (hp_cells h) then 1 else 0)"
proof (cases oper)
  case (And a b)
  then show ?thesis by (simp add: and_status_def status_new_def Let_def split_beta owed_add_callback)
next
  case (Poll i w)
  show ?thesis
  proof (cases "\<exists>cbs ws. phase_of h i = Some (Pending cbs ws)")
    case True
    then show ?thesis using Poll by (auto simp: status_poll_def owed_user_def queued_def runs_of_def)
  next
    case False
    then show ?thesis using Poll by (auto simp: status_poll_def split: option.splits phase.splits)
  qed
qed (auto simp: owed_add_callback setter_success_def setter_fail_def status_cancel_def timer_fires_def Let_def
    split: timer.splits)

lemma outcome_frame:
  assumes "outcome_right h []" "hp_log h' = hp_log h"
    and "\<And>s e. phase_of h s = Some (Done e) \<Longrightarrow> phase_of h' s = Some (Done e)"
  shows "outcome_right h' []"
  using assms by (simp add: outcome_right_def)

lemma outcome_add_callback: "outcome_right h [] \<Longrightarrow> outcome_right (add_callback s cb h) []"
  by (auto simp: add_callback_def intro!: run_actions_outcome outcome_frame [where h = h]
      simp del: run_actions.simps split: option.splits phase.splits)
    (simp add: outcome_right_def)

lemma outcome_finish: "outcome_right h [] \<Longrightarrow> outcome_right (finish_status s e h) []"
  unfolding finish_status_def by (rule run_actions_outcome) (simp add: outcome_right_def)

lemma outcome_with_timeout: "outcome_right h [] \<Longrightarrow> outcome_right (snd (with_timeout timed settles h)) []"
  by (rule outcome_frame [where h = h]) (auto simp: with_timeout_def Let_def phase_of_def nth_append split: if_splits)

lemma outcome_fields:
  "outcome_right h [] \<Longrightarrow> outcome_right (h\<lparr> hp_timers := t \<rparr>) []"
  "outcome_right h [] \<Longrightarrow> outcome_right (h\<lparr> hp_counters := n \<rparr>) []"
  "outcome_right h [] \<Longrightarrow> outcome_right (upd_cell i (\<lambda>c. c\<lparr> ce_cancel := b \<rparr>) h) []"
  "outcome_right h [] \<Longrightarrow> outcome_right (update_watcher i u tm h) []"
  by (erule outcome_frame; simp)+

lemma outcome_poll: "outcome_right h [] \<Longrightarrow> outcome_right (snd (status_poll s w h)) []"
  by (auto simp: status_poll_def intro!: outcome_frame [where h = h] split: option.splits phase.splits)

lemma outcome_apply_op: "outcome_right h [] \<Longrightarrow> outcome_right (apply_op oper h) []"
  by (cases oper)
    (auto simp: setter_success_def setter_fail_def status_cancel_def timer_fires_def Let_def and_status_def
      status_new_def split_beta intro!: outcome_add_callback outcome_finish outcome_with_timeout outcome_fields
      outcome_poll split: timer.splits)

lemma run_ops_counts:
  "owed_user s k (run_ops ops h) [] = owed_user s k h [] + registrations s k ops h"
  unfolding run_ops_def
  by (induction ops arbitrary: h) (simp_all add: owed_apply_op del: apply_op.simps)

lemma run_ops_outcome: "outcome_right h [] \<Longrightarrow> outcome_right (run_ops ops h) []"
  unfolding run_ops_def by (induction ops arbitrary: h) (simp_all add: outcome_apply_op del: apply_op.simps)

lemma heap_new_simps [simp]: "outcome_right heap_new []" "queued heap_new s cb = 0" "runs_of heap_new s k = 0"
  by (simp_all add: outcome_right_def heap_new_def owed_user_def queued_def runs_of_def phase_of_def)

lemma runs_of_zero: "runs_of h s k = 0 \<longleftrightarrow> (\<forall>e. Fired s k e \<notin> set (hp_log h))"
proof -
  have "fired s k x \<longleftrightarrow> (\<exists>e. x = Fired s k e)" for x by (cases x) auto
  then show ?thesis by (auto simp: runs_of_def filter_empty_conv)
qed

text \<open>C15. A callback runs exactly once, with the outcome of its status, and not before the
  status is finished: after any operations, a finished status has run each of its callbacks as often
  as it was registered, whether before or after the status finished, and an unfinished one has
  run none.\<close>

theorem callbacks_run_once:
  "runs_of (run_ops ops heap_new) s k
     = (if done_state (run_ops ops heap_new) s then registrations s k ops heap_new else 0)
   \<and> (\<forall>e. Fired s k e \<in> set (hp_log (run_ops ops heap_new)) \<longrightarrow> status_end (run_ops ops heap_new) s = Some e)"
proof -
  let ?h = "run_ops ops heap_new"
  have right: "phase_of ?h s = Some (Done e)" if "Fired s k e \<in> set (hp_log ?h)" for e
    using run_ops_outcome [OF heap_new_simps(1), of ops] that unfolding outcome_right_def by blast
  have total: "queued ?h s (User k) + runs_of ?h s k = registrations s k ops heap_new"
    using run_ops_counts [of s k ops heap_new] by (simp add: owed_user_def)
  show ?thesis
  proof (cases "status_end ?h s")
    case None
    then have "runs_of ?h s k = 0" using right by (fastforce simp: runs_of_zero status_end_def)
    then show ?thesis using None right by (auto simp: done_state_def status_end_def)
  next
    case (Some e)
    then have "queued ?h s (User k) = 0" by (auto simp: queued_def status_end_def split: option.splits phase.splits)
    then show ?thesis using Some total right by (auto simp: done_state_def status_end_def)
  qed
qed

theorem callbacks_run_once_witness:
  "runs_of (run_ops [New False False, AddUser 0 7, Succeed 0, AddUser 0 7, Cancel 0] heap_new) 0 7 = 2"
proof -
  have "done_state (run_ops [New False False, AddUser 0 7, Succeed 0, AddUser 0 7, Cancel 0] heap_new) 0"
    "registrations 0 7 [New False False, AddUser 0 7, Succeed 0, AddUser 0 7, Cancel 0] heap_new = 2"
    by code_simp+
  then show ?thesis
    using callbacks_run_once [of "[New False False, AddUser 0 7, Succeed 0, AddUser 0 7, Cancel 0]" 0 7] by simp
qed

text \<open>The outcome of a status is recorded once: whatever operations follow (a second
  report, a cancellation, a timer), a finished status keeps the outcome it finished with, so
  cancelling a status that has succeeded preserves the success.\<close>

theorem outcome_recorded_once:
  assumes "status_end h s = Some e"
  shows "status_end (run_ops ops h) s = Some e"
  using assms run_ops_done [of h s e ops] by (auto simp: status_end_def split: option.splits phase.splits)

theorem outcome_recorded_once_witness:
  "status_success (run_ops [Cancel 0, Fail 0 StCancelled, Timer 0] (run_ops [New True False, Succeed 0] heap_new)) 0"
proof -
  have "status_end (run_ops [New True False, Succeed 0] heap_new) 0 = Some None" by code_simp
  from outcome_recorded_once [OF this, of "[Cancel 0, Fail 0 StCancelled, Timer 0]"]
  show ?thesis by (simp add: status_success_def)
qed

end
