(* ===== verification/Status_Conjunction.thy ===== *)
theory Status_Conjunction
  imports Status
begin

text \<open>
  \<open>Status::and\<close> (\<open>core/status.rs\<close>) and the statuses it combines: a conjunction is a cell of its own with a
  counter, fed by a callback on each part. The invariant \<open>part_inv\<close> of the heap and the stack of running
  waiters says what the two callbacks still owe the counter; every action and every
  operation that leaves the conjunction itself alone keeps it.
\<close>

section \<open>The conjunction of two statuses\<close>

text \<open>The callbacks an \<open>and\<close> status \<open>t\<close> with counter \<open>c\<close> still waits for from the status \<open>x\<close>:
  those not registered yet (\<open>ur\<close>), those registered and those on the stack.\<close>

definition owed :: "nat \<Rightarrow> nat \<Rightarrow> nat list \<Rightarrow> heap \<Rightarrow> action list \<Rightarrow> nat \<Rightarrow> nat" where
  "owed t c ur h as x =
     count_list ur x + queued h x (Part t c) + length (filter (fires x (Part t c)) as)"

definition ended :: "heap \<Rightarrow> nat \<Rightarrow> end_state \<Rightarrow> bool" where
  "ended h x e \<longleftrightarrow> phase_of h x = Some (Done e)"

text \<open>The outcome \<open>e\<close> of a conjunction is the right one for its parts.\<close>

definition deserved :: "nat \<Rightarrow> nat \<Rightarrow> heap \<Rightarrow> end_state \<Rightarrow> bool" where
  "deserved a b h e =
     (case e of None \<Rightarrow> ended h a None \<and> ended h b None | Some err \<Rightarrow> ended h a e \<or> ended h b e)"

definition share :: "nat \<Rightarrow> nat \<Rightarrow> nat \<Rightarrow> nat \<Rightarrow> nat list \<Rightarrow> heap \<Rightarrow> action list \<Rightarrow> nat \<Rightarrow> nat" where
  "share t c a b ur h as x = (if ended h x None then owed t c ur h as x else count_list [a, b] x)"

definition part_fresh :: "nat \<Rightarrow> nat \<Rightarrow> callback \<Rightarrow> bool" where
  "part_fresh t c cb = (case cb of User k \<Rightarrow> True | Part t' c' \<Rightarrow> t' \<noteq> t \<and> c' \<noteq> c \<or> t' = t \<and> c' = c)"

definition part_inv :: "nat \<Rightarrow> nat \<Rightarrow> nat \<Rightarrow> nat \<Rightarrow> nat list \<Rightarrow> heap \<Rightarrow> action list \<Rightarrow> bool" where
  "part_inv t c a b ur h as \<longleftrightarrow>
     a < t \<and> b < t \<and> t < length (hp_cells h) \<and> c < length (hp_counters h)
   \<and> outcome_right h as
   \<and> (\<forall>x cbs ws. phase_of h x = Some (Pending cbs ws) \<longrightarrow> (\<forall>cb \<in> set cbs. part_fresh t c cb))
   \<and> (\<forall>x cb e. Fire x cb e \<in> set as \<longrightarrow> part_fresh t c cb)
   \<and> (\<forall>x. owed t c ur h as x \<le> count_list [a, b] x)
   \<and> (\<forall>x. status_end h x = None \<longrightarrow> owed t c ur h as x = count_list [a, b] x)
   \<and> hp_counters h ! c = share t c a b ur h as a + (if a = b then 0 else share t c a b ur h as b)
   \<and> (\<forall>e. Finish t e \<in> set as \<or> ended h t e \<longrightarrow> deserved a b h e)
   \<and> (status_end h t = None \<and> (\<forall>e. Finish t e \<notin> set as) \<longrightarrow>
        0 < hp_counters h ! c \<and> (\<forall>x err. ended h x (Some err) \<longrightarrow> owed t c ur h as x = count_list [a, b] x))"

lemma part_invD:
  assumes "part_inv t c a b ur h as"
  shows "a < t \<and> b < t \<and> t < length (hp_cells h) \<and> c < length (hp_counters h)"
    "outcome_right h as"
    "phase_of h x = Some (Pending cbs ws) \<Longrightarrow> cb \<in> set cbs \<Longrightarrow> part_fresh t c cb"
    "Fire x cb e \<in> set as \<Longrightarrow> part_fresh t c cb"
    "owed t c ur h as x \<le> count_list [a, b] x"
    "status_end h x = None \<Longrightarrow> owed t c ur h as x = count_list [a, b] x"
    "hp_counters h ! c = share t c a b ur h as a + (if a = b then 0 else share t c a b ur h as b)"
    "Finish t e \<in> set as \<or> ended h t e \<Longrightarrow> deserved a b h e"
    "status_end h t = None \<Longrightarrow> (\<And>e. Finish t e \<notin> set as) \<Longrightarrow> 0 < hp_counters h ! c"
    "status_end h t = None \<Longrightarrow> (\<And>e. Finish t e \<notin> set as) \<Longrightarrow> ended h x (Some err)
       \<Longrightarrow> owed t c ur h as x = count_list [a, b] x"
  using assms unfolding part_inv_def by blast+

lemma part_invI:
  assumes "a < t \<and> b < t \<and> t < length (hp_cells h) \<and> c < length (hp_counters h)"
    and "outcome_right h as"
    and "\<And>x cb cbs ws. phase_of h x = Some (Pending cbs ws) \<Longrightarrow> cb \<in> set cbs \<Longrightarrow> part_fresh t c cb"
    and "\<And>x cb e. Fire x cb e \<in> set as \<Longrightarrow> part_fresh t c cb"
    and "\<And>x. owed t c ur h as x \<le> count_list [a, b] x"
    and "\<And>x. status_end h x = None \<Longrightarrow> owed t c ur h as x = count_list [a, b] x"
    and "hp_counters h ! c = share t c a b ur h as a + (if a = b then 0 else share t c a b ur h as b)"
    and "\<And>e. Finish t e \<in> set as \<or> ended h t e \<Longrightarrow> deserved a b h e"
    and "status_end h t = None \<Longrightarrow> (\<And>e. Finish t e \<notin> set as) \<Longrightarrow> 0 < hp_counters h ! c"
    and "\<And>x err. status_end h t = None \<Longrightarrow> (\<And>e. Finish t e \<notin> set as) \<Longrightarrow> ended h x (Some err)
       \<Longrightarrow> owed t c ur h as x = count_list [a, b] x"
  shows "part_inv t c a b ur h as"
  unfolding part_inv_def using assms(1,2,7) by (intro conjI allI impI ballI) (blast intro: assms)+

lemma owed_act:
  "act a h = (new, h') \<Longrightarrow>
     owed t c ur h' (new @ as) x + (if fires x (Part t c) a then 1 else 0) = owed t c ur h (a # as) x"
  by (cases "(a, h)" rule: act.cases)
    (auto simp: owed_def queued_def filter_map count_fires_comp count_fires_wake Let_def
      dest: phase_Some_less split: option.splits phase.splits if_splits)

lemma status_end_ended: "status_end h s = Some e \<longleftrightarrow> ended h s e"
  by (auto simp: status_end_def ended_def split: option.splits phase.splits)

lemma status_end_None: "status_end h s = None \<longleftrightarrow> (\<forall>e. \<not> ended h s e)"
  using status_end_ended [of h s] by (cases "status_end h s") auto

lemma ended_unique: "ended h s e \<Longrightarrow> ended h s e' \<Longrightarrow> e = e'"
  by (simp add: ended_def)

lemma deserved_mono: "deserved a b h e \<Longrightarrow> (\<And>x e. ended h x e \<Longrightarrow> ended h' x e) \<Longrightarrow> deserved a b h' e"
  by (auto simp: deserved_def split: option.splits)

lemma ended_set_phase:
  "phase_of h s = Some (Pending cbs ws) \<Longrightarrow> ended (set_phase s (Done e) h) x e' \<longleftrightarrow> x = s \<and> e' = e \<or> ended h x e'"
  using phase_Some_less [of h s] by (auto simp: ended_def)

lemma hp_frame [simp]:
  "hp_counters (set_phase s p h) = hp_counters h" "hp_counters (log e h) = hp_counters h"
  "length (hp_cells (set_phase s p h)) = length (hp_cells h)" "hp_cells (log e h) = hp_cells h"
  by (simp_all add: set_phase_def upd_cell_def log_def)

lemma part_inv_finish:
  assumes inv: "part_inv t c a b ur h (Finish s e # as)" and p: "phase_of h s = Some (Pending cbs ws)"
    and new: "new = map (\<lambda>cb. Fire s cb e) cbs @ map Wake ws"
  shows "part_inv t c a b ur (set_phase s (Done e) h) (new @ as)"
proof -
  let ?h = "set_phase s (Done e) h"
  have act: "act (Finish s e) h = (new, ?h)" using p new by simp
  have owed: "owed t c ur ?h (new @ as) x = owed t c ur h (Finish s e # as) x" for x
    using owed_act [OF act, of t c ur as x] by simp
  have end_s: "status_end h s = None" using p by (simp add: status_end_def)
  have end_h: "status_end ?h x = None \<longleftrightarrow> x \<noteq> s \<and> status_end h x = None" for x
    using ended_set_phase [OF p] by (auto simp: status_end_None)
  have full: "owed t c ur h (Finish s e # as) s = count_list [a, b] s"
    by (rule part_invD(6) [OF inv end_s])
  have not_s: "\<not> ended h s e'" for e' using p by (simp add: ended_def)
  have share: "share t c a b ur ?h (new @ as) x = share t c a b ur h (Finish s e # as) x" for x
    unfolding share_def owed ended_set_phase [OF p] using full not_s by auto
  have mem: "Finish t e' \<notin> set new" for e' using new by auto
  have h: "status_end h t = None" "\<And>e'. Finish t e' \<notin> set (Finish s e # as)"
    if "status_end ?h t = None" "\<And>e'. Finish t e' \<notin> set (new @ as)"
    using that end_h [of t] by auto
  show ?thesis
  proof (rule part_invI, goal_cases)
    case 1
    then show ?case using part_invD(1) [OF inv] by simp
  next
    case 2
    show ?case by (rule act_outcome [OF part_invD(2) [OF inv] act])
  next
    case (3 x cb cbs' ws')
    then show ?case using part_invD(3) [OF inv] by (auto split: if_splits)
  next
    case (4 x cb e')
    then show ?case using part_invD(3) [OF inv p] part_invD(4) [OF inv] new by auto
  next
    case (5 x)
    show ?case unfolding owed by (rule part_invD(5) [OF inv])
  next
    case (6 x)
    then show ?case unfolding owed by (intro part_invD(6) [OF inv]) (simp add: end_h)
  next
    case 7
    show ?case unfolding share using part_invD(7) [OF inv] by simp
  next
    case (8 e')
    then have "Finish t e' \<in> set (Finish s e # as) \<or> ended h t e'"
      using mem [of e'] ended_set_phase [OF p] by auto
    from part_invD(8) [OF inv this] show ?case by (rule deserved_mono) (simp add: ended_set_phase [OF p])
  next
    case 9
    show ?case using part_invD(9) [OF inv h] 9 by simp
  next
    case (10 x err)
    show ?case
    proof (cases "x = s")
      case False
      then show ?thesis unfolding owed using 10 by (intro part_invD(10) [OF inv h]) (simp_all add: ended_set_phase [OF p])
    qed (simp add: owed full)
  qed
qed

lemma share_cong:
  assumes "owed t c ur h as x = owed t c ur' h' as' x" "ended h x None = ended h' x None"
  shows "share t c a b ur h as x = share t c a b ur' h' as' x"
  using assms by (simp add: share_def)

text \<open>An action or an operation that neither finishes a status nor runs one of the two callbacks.\<close>

lemma part_inv_frame:
  assumes inv: "part_inv t c a b ur h as"
    and owed: "\<And>x. owed t c ur' h' as' x = owed t c ur h as x"
    and ended: "\<And>x e. ended h' x e \<longleftrightarrow> ended h x e"
    and counters: "hp_counters h' ! c = hp_counters h ! c" "length (hp_counters h) \<le> length (hp_counters h')"
      "length (hp_cells h) \<le> length (hp_cells h')"
    and right: "outcome_right h' as'"
    and fresh: "\<And>x cb cbs ws. phase_of h' x = Some (Pending cbs ws) \<Longrightarrow> cb \<in> set cbs \<Longrightarrow> part_fresh t c cb"
      "\<And>x cb e. Fire x cb e \<in> set as' \<Longrightarrow> part_fresh t c cb"
    and finish: "\<And>e. Finish t e \<in> set as' \<Longrightarrow> Finish t e \<in> set as"
      "\<And>e. status_end h t = None \<Longrightarrow> Finish t e \<in> set as \<Longrightarrow> Finish t e \<in> set as'"
  shows "part_inv t c a b ur' h' as'"
proof -
  have none: "status_end h' x = None \<longleftrightarrow> status_end h x = None" for x by (simp add: status_end_None ended)
  have share: "share t c a b ur' h' as' x = share t c a b ur h as x" for x
    by (rule share_cong) (simp_all add: owed ended)
  have h: "status_end h t = None" "\<And>e'. Finish t e' \<notin> set as"
    if "status_end h' t = None" "\<And>e'. Finish t e' \<notin> set as'"
    using that finish none by auto
  show ?thesis
  proof (rule part_invI, goal_cases)
    case 1
    show ?case using part_invD(1) [OF inv] counters by auto
  next
    case (5 x)
    show ?case unfolding owed by (rule part_invD(5) [OF inv])
  next
    case (6 x)
    then show ?case unfolding owed by (intro part_invD(6) [OF inv]) (simp add: none)
  next
    case 7
    show ?case unfolding share counters(1) by (rule part_invD(7) [OF inv])
  next
    case (8 e)
    then have "Finish t e \<in> set as \<or> ended h t e" using finish(1) ended by auto
    from part_invD(8) [OF inv this] show ?case by (rule deserved_mono) (simp add: ended)
  next
    case 9
    show ?case using part_invD(9) [OF inv h] 9 counters(1) by simp
  next
    case (10 x err)
    then show ?case unfolding owed by (intro part_invD(10) [OF inv h]) (simp_all add: ended)
  qed (use right fresh in auto)
qed

lemma phase_ended_cong: "(\<And>x. phase_of h' x = phase_of h x) \<Longrightarrow> ended h' x e \<longleftrightarrow> ended h x e"
  by (simp add: ended_def)

lemma part_inv_fire:
  assumes inv: "part_inv t c a b ur h (Fire x (Part t c) e # as)"
    and act: "act (Fire x (Part t c) e) h = (new, h')"
  shows "part_inv t c a b ur h' (new @ as)"
proof -
  let ?as = "Fire x (Part t c) e # as"
  have phase: "phase_of h' s = phase_of h s" for s using act by (auto simp: Let_def split: option.splits)
  note end' = phase_ended_cong [OF phase]
  have none: "status_end h' s = None \<longleftrightarrow> status_end h s = None" for s by (simp add: status_end_None end')
  have x: "ended h x e" using part_invD(2) [OF inv] by (simp add: outcome_right_def ended_def)
  have owed: "owed t c ur h' (new @ as) y + (if y = x then 1 else 0) = owed t c ur h ?as y" for y
    using owed_act [OF act, of t c ur as y] by auto
  have pos: "0 < owed t c ur h ?as x" by (simp add: owed_def)
  have inab: "x = a \<or> x = b" using part_invD(5) [OF inv, of x] pos by (auto split: if_splits)
  have le: "owed t c ur h' (new @ as) y \<le> count_list [a, b] y" for y
    using owed [of y] part_invD(5) [OF inv, of y] by linarith
  have full: "owed t c ur h' (new @ as) y = count_list [a, b] y" if "status_end h' y = None" for y
  proof -
    have "y \<noteq> x" using that x none by (auto simp: status_end_None)
    then show ?thesis using that owed [of y] part_invD(6) [OF inv, of y] none by simp
  qed
  have cs: "share t c a b ur h ?as a + (if a = b then 0 else share t c a b ur h ?as b) = hp_counters h ! c"
    using part_invD(7) [OF inv] by simp
  have base: "a < t \<and> b < t \<and> t < length (hp_cells h') \<and> c < length (hp_counters h')"
    using part_invD(1) [OF inv] act by (auto simp: Let_def split: option.splits)
  have right: "outcome_right h' (new @ as)" by (rule act_outcome [OF part_invD(2) [OF inv] act])
  have fresh: "part_fresh t c cb" if "Fire y cb e' \<in> set (new @ as)" for y cb e'
    using that part_invD(4) [OF inv] act by (auto simp: Let_def split: option.splits if_splits)
  show ?thesis
  proof (cases e)
    case (Some err)
    then have new: "new = [Finish t e]" "h' = h" using act by auto
    have share: "share t c a b ur h' (new @ as) y = share t c a b ur h ?as y" for y
      using owed [of y] x Some new(2) ended_unique [of h y e None] by (auto simp: share_def split: if_splits)
    have "deserved a b h e" using x inab Some by (auto simp: deserved_def)
    then have des: "deserved a b h e'" if "Finish t e' \<in> set (new @ as) \<or> ended h t e'" for e'
      using that new part_invD(8) [OF inv, of e'] by auto
    have pushed: "Finish t e \<in> set (new @ as)" using new by simp
    show ?thesis
    proof (rule part_invI, goal_cases)
      case (3 y cb cbs ws)
      then show ?case using part_invD(3) [OF inv] new by auto
    next
      case 7
      show ?case unfolding share cs using new(2) by simp
    next
      case (8 e')
      then show ?case using des [of e'] new by simp
    next
      case 9
      then show ?case using pushed by blast
    next
      case (10 y err')
      then show ?case using pushed by blast
    qed (fact base right fresh le full)+
  next
    case None
    have c': "hp_counters h' ! c = hp_counters h ! c - 1"
      and new: "new = (if hp_counters h ! c = 1 then [Finish t None] else [])"
      using act None part_invD(1) [OF inv] by (auto simp: Let_def)
    have share: "share t c a b ur h' (new @ as) y + (if y = x then 1 else 0) = share t c a b ur h ?as y" for y
      using owed [of y] x None by (auto simp: share_def end')
    have total: "hp_counters h' ! c = share t c a b ur h' (new @ as) a
        + (if a = b then 0 else share t c a b ur h' (new @ as) b)"
      using c' cs share [of a] share [of b] inab by (auto split: if_splits)
    have pos_c: "0 < hp_counters h ! c" using cs share [of a] share [of b] inab by (auto split: if_splits)
    have both: "deserved a b h' None" if "hp_counters h ! c = 1"
    proof -
      have "share t c a b ur h' (new @ as) y = 0" if "y = a \<or> y = b" for y
        using total c' \<open>hp_counters h ! c = 1\<close> that by (auto split: if_splits)
      then have "ended h' y None" if "y = a \<or> y = b" for y
        using that by (fastforce simp: share_def split: if_splits)
      then show ?thesis by (simp add: deserved_def)
    qed
    show ?thesis
    proof (rule part_invI, goal_cases)
      case (3 y cb cbs ws)
      then show ?case using part_invD(3) [OF inv] phase by auto
    next
      case (8 e')
      show ?case
      proof (cases "Finish t e' \<in> set as \<or> ended h t e'")
        case True
        then show ?thesis using part_invD(8) [OF inv, of e'] by (auto intro: deserved_mono simp: end')
      next
        case False
        then show ?thesis using 8 both new end' by (auto split: if_splits)
      qed
    next
      case 9
      then show ?case using new c' pos_c by (auto split: if_splits)
    next
      case (10 y err)
      then have "y \<noteq> x" using x None end' by (auto dest: ended_unique)
      then show ?case using owed [of y] part_invD(10) [OF inv, of y err] 10 none end' by (auto split: if_splits)
    qed (use base right fresh le full total in auto)
  qed
qed

lemma part_inv_act:
  assumes inv: "part_inv t c a b ur h (x # as)" and act: "act x h = (new, h')"
  shows "part_inv t c a b ur h' (new @ as)"
proof -
  have rest: "part_fresh t c cb" if "Fire y cb e \<in> set as" for y cb e
    using part_invD(4) [OF inv, of y cb e] that by simp
  show ?thesis
  proof (cases "(x, h)" rule: act.cases)
    case (1 s e h0)
    then have x: "x = Finish s e" by simp
    show ?thesis
    proof (cases "\<exists>cbs ws. phase_of h s = Some (Pending cbs ws)")
      case True
      then show ?thesis using part_inv_finish inv act x by (auto split: option.splits)
    next
      case False
      then have eq: "new = []" "h' = h" using act x by (auto split: option.splits phase.splits)
      have "phase_of h s \<noteq> None \<Longrightarrow> status_end h s \<noteq> None"
        using False by (auto simp: status_end_def split: option.splits phase.splits)
      moreover have "phase_of h t \<noteq> None" using part_invD(1) [OF inv] by (simp add: phase_of_def)
      ultimately show ?thesis unfolding eq
        using x part_invD(3) [OF inv] rest
        by (intro part_inv_frame [OF inv] act_outcome [OF part_invD(2) [OF inv] act, unfolded eq])
          (auto simp: owed_def)
    qed
  next
    case (2 s k e h0)
    then have x: "x = Fire s (User k) e" by simp
    then have eq: "new = []" "h' = log (Fired s k e) h" using act by auto
    show ?thesis unfolding eq
      using x part_invD(3) [OF inv] rest
      by (intro part_inv_frame [OF inv] act_outcome [OF part_invD(2) [OF inv] act, unfolded eq])
        (auto simp: owed_def queued_def ended_def)
  next
    case (3 s t' c' e h0)
    then have x: "x = Fire s (Part t' c') e" by simp
    show ?thesis
    proof (cases "t' = t \<and> c' = c")
      case True
      then show ?thesis using part_inv_fire inv act x by blast
    next
      case False
      then have ne: "t' \<noteq> t" "c' \<noteq> c" using part_invD(4) [OF inv, of s "Part t' c'" e] x by (auto simp: part_fresh_def)
      have phase: "phase_of h' s = phase_of h s" "hp_counters h' ! c = hp_counters h ! c"
        "length (hp_counters h') = length (hp_counters h)" "hp_cells h' = hp_cells h" for s
        using act x ne by (auto simp: Let_def split: option.splits)
      have new: "\<exists>e'. set new \<subseteq> {Finish t' e'}" using act x by (auto simp: Let_def split: option.splits)
      show ?thesis
      proof (rule part_inv_frame [OF inv], goal_cases)
        case (1 y)
        then show ?case using owed_act [OF act, of t c ur as y] x ne by auto
      next
        case (2 y e)
        show ?case by (rule phase_ended_cong) (rule phase)
      next
        case 6
        show ?case by (rule act_outcome [OF part_invD(2) [OF inv] act])
      qed (use phase new ne x part_invD(3) [OF inv] rest in auto)
    qed
  next
    case (4 w h0)
    then have x: "x = Wake w" by simp
    then have eq: "new = []" "h' = log (Woken w) h" using act by auto
    show ?thesis unfolding eq
      using x part_invD(3) [OF inv] rest
      by (intro part_inv_frame [OF inv] act_outcome [OF part_invD(2) [OF inv] act, unfolded eq])
        (auto simp: owed_def queued_def ended_def)
  qed
qed

lemma run_actions_parts: "part_inv t c a b ur h as \<Longrightarrow> part_inv t c a b ur (run_actions as h) []"
  by (rule run_actions_invariant [where P = "part_inv t c a b ur"]) (auto intro: part_inv_act)

subsection \<open>Registering the two callbacks\<close>

lemma hp_set [simp]: "hp_counters (upd_cell s f h) = hp_counters h" "length (hp_cells (upd_cell s f h)) = length (hp_cells h)"
  by (simp_all add: upd_cell_def)

lemma part_inv_register:
  assumes inv: "part_inv t c a b (x # ur) h []" and x: "x < length (hp_cells h)"
  shows "part_inv t c a b ur (add_callback x (Part t c) h) []"
proof -
  obtain p where p: "phase_of h x = Some p" using phase_less_Some [OF x] by blast
  show ?thesis
  proof (cases p)
    case (Pending cbs ws)
    let ?h = "set_phase x (Pending (cbs @ [Part t c]) ws) h"
    have h: "phase_of h x = Some (Pending cbs ws)" using p Pending by simp
    have ended: "ended ?h y e \<longleftrightarrow> ended h y e" for y e using h by (auto simp: ended_def)
    have owed: "owed t c ur ?h [] y = owed t c (x # ur) h [] y" for y
      using h x by (auto simp: owed_def queued_def)
    have "part_inv t c a b ur ?h []"
    proof (rule part_inv_frame [OF inv owed ended], goal_cases)
      case 4
      show ?case by (rule outcome_frame [OF part_invD(2) [OF inv]]) (use h in auto)
    next
      case (5 y cb cbs' ws')
      then show ?case using part_invD(3) [OF inv] h x by (auto simp: part_fresh_def split: if_splits)
    qed simp_all
    then show ?thesis using h by (simp add: add_callback_def)
  next
    case (Done e)
    have h: "phase_of h x = Some (Done e)" using p Done by simp
    have "part_inv t c a b ur h [Fire x (Part t c) e]"
    proof (rule part_inv_frame [OF inv], goal_cases)
      case (1 y)
      then show ?case by (auto simp: owed_def)
    next
      case 6
      show ?case using part_invD(2) [OF inv] h by (simp add: outcome_right_def)
    next
      case (7 y cb cbs' ws')
      then show ?case using part_invD(3) [OF inv] by blast
    qed (auto simp: part_fresh_def)
    from run_actions_parts [OF this] show ?thesis
      using h by (simp add: add_callback_def del: run_actions.simps)
  qed
qed

text \<open>Every callback on a status refers to a status and a counter that exist.\<close>

definition parts_known :: "heap \<Rightarrow> bool" where
  "parts_known h \<longleftrightarrow> outcome_right h []
     \<and> (\<forall>x cbs ws. phase_of h x = Some (Pending cbs ws) \<longrightarrow>
          (\<forall>t c. Part t c \<in> set cbs \<longrightarrow> t < length (hp_cells h) \<and> c < length (hp_counters h)))
     \<and> (\<forall>s. (TimeoutTimer s \<in> set (hp_timers h) \<or> SettleTimer s \<in> set (hp_timers h)) \<longrightarrow> s < length (hp_cells h))"

lemma part_inv_created:
  assumes known: "parts_known h" and a: "a < length (hp_cells h)" and b: "b < length (hp_cells h)"
  shows "part_inv (length (hp_cells h)) (length (hp_counters h)) a b []
           (snd (and_status a b h)) []"
proof -
  let ?t = "length (hp_cells h)" and ?c = "length (hp_counters h)"
  let ?h1 = "snd (with_timeout False False h)"
  let ?h2 = "?h1\<lparr> hp_counters := hp_counters ?h1 @ [2] \<rparr>"
  have counters: "hp_counters ?h1 = hp_counters h" and cells: "length (hp_cells ?h2) = Suc ?t"
    by (simp_all add: with_timeout_def Let_def)
  have old: "phase_of h ?t = None" by (simp add: phase_of_def)
  have unknown: "Part ?t ?c \<notin> set cbs" if "phase_of h x = Some (Pending cbs ws)" for x cbs ws
    using known that unfolding parts_known_def by blast
  then have q: "queued ?h2 x (Part ?t ?c) = 0" for x
    by (auto simp: queued_def count_list_0_iff split: option.splits phase.splits)
  have inv: "part_inv ?t ?c a b [a, b] ?h2 []"
  proof (rule part_invI, goal_cases)
    case 2
    show ?case using known unfolding parts_known_def by (intro outcome_fields(2) outcome_with_timeout) blast
  next
    case (3 x cb cbs ws)
    then have "Part t' c' \<in> set cbs \<Longrightarrow> t' < ?t \<and> c' < ?c" for t' c'
      using known unfolding parts_known_def by (cases "x = ?t") auto
    then show ?case using 3 by (cases cb) (fastforce simp: part_fresh_def)+
  next
    case 7
    then show ?case using counters q by (auto simp: share_def owed_def nth_append)
  next
    case (8 e)
    then show ?case by (simp add: ended_def)
  next
    case 9
    then show ?case using counters by (simp add: nth_append)
  qed (use a b counters cells q in \<open>auto simp: owed_def\<close>)
  have inv1: "part_inv ?t ?c a b [b] (add_callback a (Part ?t ?c) ?h2) []"
    by (rule part_inv_register [OF inv]) (use a cells in simp)
  have "part_inv ?t ?c a b [] (add_callback b (Part ?t ?c) (add_callback a (Part ?t ?c) ?h2)) []"
    by (rule part_inv_register [OF inv1]) (use part_invD(1) [OF inv1] b in linarith)
  moreover have "fst (with_timeout False False h) = ?t" by (simp add: with_timeout_def Let_def)
  ultimately show ?thesis by (simp add: and_status_def status_new_def Let_def split_beta counters)
qed

subsection \<open>The other operations\<close>

lemma hp_timers_frame [simp]:
  "hp_timers (upd_cell s f h) = hp_timers h" "hp_timers (set_phase s p h) = hp_timers h"
  "hp_timers (log e h) = hp_timers h"
  by (simp_all add: set_phase_def upd_cell_def log_def)

definition same_shape :: "heap \<Rightarrow> heap \<Rightarrow> bool" where
  "same_shape h h' \<longleftrightarrow> length (hp_cells h') = length (hp_cells h) \<and> length (hp_counters h') = length (hp_counters h)
     \<and> hp_timers h' = hp_timers h
     \<and> (\<forall>x cbs ws. phase_of h' x = Some (Pending cbs ws) \<longrightarrow> phase_of h x = Some (Pending cbs ws))"

lemma act_shape: "act a h = (new, h') \<Longrightarrow> same_shape h h'"
  by (cases "(a, h)" rule: act.cases)
    (auto simp: same_shape_def Let_def split: option.splits phase.splits if_splits)

lemma run_actions_shape: "same_shape h (run_actions as h)"
proof (rule run_actions_invariant [where P = "\<lambda>h' _. same_shape h h'"])
  fix a as h1 new h'
  assume "same_shape h h1" "act a h1 = (new, h')"
  then show "same_shape h h'" using act_shape [of a h1 new h'] by (simp add: same_shape_def)
qed (simp add: same_shape_def)

lemma parts_known_shape:
  assumes "parts_known h" "same_shape h h'" "outcome_right h' []"
  shows "parts_known h'"
  using assms unfolding parts_known_def same_shape_def by (auto; metis)

lemma parts_known_run:
  "parts_known h \<Longrightarrow> outcome_right h as \<Longrightarrow> parts_known (run_actions as h)"
  by (rule parts_known_shape [OF _ run_actions_shape run_actions_outcome])

lemma parts_known_finish: "parts_known h \<Longrightarrow> parts_known (finish_status s e h)"
  unfolding finish_status_def by (rule parts_known_run) (auto simp: parts_known_def outcome_right_def)

lemma parts_known_add:
  assumes "parts_known h" "\<And>t c. cb = Part t c \<Longrightarrow> t < length (hp_cells h) \<and> c < length (hp_counters h)"
  shows "parts_known (add_callback x cb h)"
proof (cases "\<exists>cbs ws. phase_of h x = Some (Pending cbs ws)")
  case True
  then obtain cbs ws where p: "phase_of h x = Some (Pending cbs ws)" by blast
  have "outcome_right (add_callback x cb h) []"
    using assms(1) by (intro outcome_add_callback) (simp add: parts_known_def)
  then show ?thesis
    using assms p by (fastforce simp: add_callback_def parts_known_def split: if_splits)
next
  case False
  then show ?thesis
    using assms(1) parts_known_run [OF assms(1)]
    by (auto simp: add_callback_def parts_known_def outcome_right_def simp del: run_actions.simps split: option.splits phase.splits)
qed

lemma parts_known_with_timeout:
  assumes "parts_known h"
  shows "parts_known (snd (with_timeout timed settles h))"
proof -
  have "outcome_right (snd (with_timeout timed settles h)) []"
    using assms by (intro outcome_with_timeout) (simp add: parts_known_def)
  moreover have "length (hp_cells (snd (with_timeout timed settles h))) = Suc (length (hp_cells h))"
    "hp_counters (snd (with_timeout timed settles h)) = hp_counters h"
    "set (hp_timers (snd (with_timeout timed settles h))) \<subseteq> insert (TimeoutTimer (length (hp_cells h))) (set (hp_timers h))"
    by (auto simp: with_timeout_def Let_def)
  ultimately show ?thesis
    using assms unfolding parts_known_def by (fastforce split: if_splits intro: less_SucI)
qed

lemma parts_known_fields:
  assumes "parts_known h"
  shows "parts_known (upd_cell i (\<lambda>c. c\<lparr> ce_cancel := b \<rparr>) h)"
    "parts_known (update_watcher i u tm h)"
    "parts_known (snd (status_poll s w h))"
    "length (hp_counters h) \<le> length n \<Longrightarrow> parts_known (h\<lparr> hp_counters := n \<rparr>)"
    "(\<And>s. TimeoutTimer s \<in> set tms \<or> SettleTimer s \<in> set tms \<Longrightarrow> s < length (hp_cells h))
       \<Longrightarrow> parts_known (h\<lparr> hp_timers := tms \<rparr>)"
proof -
  have right: "outcome_right h []" using assms by (simp add: parts_known_def)
  show "parts_known (upd_cell i (\<lambda>c. c\<lparr> ce_cancel := b \<rparr>) h)"
    using assms outcome_fields(3) [OF right] by (simp add: parts_known_def)
  have "hp_timers (update_watcher i u tm h) = hp_timers h" "hp_counters (update_watcher i u tm h) = hp_counters h"
    "length (hp_cells (update_watcher i u tm h)) = length (hp_cells h)"
    by (simp_all add: update_watcher_def Let_def)
  then show "parts_known (update_watcher i u tm h)"
    using assms outcome_fields(4) [OF right] by (simp add: parts_known_def)
  show "parts_known (snd (status_poll s w h))"
    using assms outcome_poll [OF right, of s w]
    by (auto simp: parts_known_def status_poll_def split: option.splits phase.splits if_splits)
  show "parts_known (h\<lparr> hp_counters := n \<rparr>)" if "length (hp_counters h) \<le> length n"
    using assms that outcome_fields(2) [OF right] by (fastforce simp: parts_known_def)
  show "parts_known (h\<lparr> hp_timers := tms \<rparr>)"
    if "\<And>s. TimeoutTimer s \<in> set tms \<or> SettleTimer s \<in> set tms \<Longrightarrow> s < length (hp_cells h)"
    using assms that outcome_fields(1) [OF right] by (simp add: parts_known_def)
qed

lemma parts_known_timers:
  "parts_known h \<Longrightarrow> TimeoutTimer s \<in> set (hp_timers h) \<or> SettleTimer s \<in> set (hp_timers h) \<Longrightarrow> s < length (hp_cells h)"
  unfolding parts_known_def by blast

text \<open>\<open>and\<close> in its three steps: the new cell, its counter, the two registrations.\<close>

definition conj_cell :: "heap \<Rightarrow> heap" where
  "conj_cell h = (snd (with_timeout False False h))\<lparr> hp_counters := hp_counters h @ [2] \<rparr>"

lemma and_status_steps:
  "snd (and_status a b h) =
     add_callback b (Part (length (hp_cells h)) (length (hp_counters h)))
       (add_callback a (Part (length (hp_cells h)) (length (hp_counters h))) (conj_cell h))"
  by (simp add: and_status_def status_new_def with_timeout_def conj_cell_def Let_def)

lemma conj_cell_length: "length (hp_cells (conj_cell h)) = Suc (length (hp_cells h))"
  "length (hp_counters (conj_cell h)) = Suc (length (hp_counters h))"
  by (simp_all add: conj_cell_def with_timeout_def Let_def)

lemma add_callback_length:
  "length (hp_cells (add_callback x cb h)) = length (hp_cells h)"
  "length (hp_counters (add_callback x cb h)) = length (hp_counters h)"
proof -
  have "length (hp_cells (run_actions as h)) = length (hp_cells h)"
    "length (hp_counters (run_actions as h)) = length (hp_counters h)" for as
    using run_actions_shape [of h as] by (simp_all add: same_shape_def)
  then show "length (hp_cells (add_callback x cb h)) = length (hp_cells h)"
    "length (hp_counters (add_callback x cb h)) = length (hp_counters h)"
    by (simp_all add: add_callback_def del: run_actions.simps split: option.splits phase.splits)
qed

lemma parts_known_conj_cell: "parts_known h \<Longrightarrow> parts_known (conj_cell h)"
  unfolding conj_cell_def
  by (rule parts_known_fields(4) [OF parts_known_with_timeout]) (simp_all add: with_timeout_def Let_def)

lemma parts_known_apply_op: "parts_known h \<Longrightarrow> parts_known (apply_op oper h)"
proof (cases oper)
  case (Timer i)
  assume known: "parts_known h"
  have "parts_known (h\<lparr> hp_timers := remove_nth i (hp_timers h) \<rparr>)"
    using remove_nth_subset [of i "hp_timers h"] parts_known_timers [OF known] by (intro parts_known_fields(5) [OF known]) blast
  then show ?thesis
    using known Timer by (auto simp: timer_fires_def Let_def parts_known_finish split: timer.splits)
next
  case (And a b)
  assume known: "parts_known h"
  show ?thesis unfolding And apply_op.simps and_status_steps
    by (intro parts_known_add parts_known_conj_cell known) (simp_all add: add_callback_length conj_cell_length)
next
  case (Succeed s)
  assume known: "parts_known h"
  have "parts_known (h\<lparr> hp_timers := hp_timers h @ [SettleTimer s] \<rparr>)" if "s < length (hp_cells h)"
    using that parts_known_timers [OF known] by (intro parts_known_fields(5) [OF known]) auto
  then show ?thesis using known Succeed by (simp add: setter_success_def parts_known_finish)
qed (auto simp: setter_fail_def status_cancel_def
    intro!: parts_known_finish parts_known_add parts_known_with_timeout parts_known_fields(1,2,3))

lemma part_inv_add_other:
  assumes inv: "part_inv t c a b [] h []" and cb: "\<And>k. cb = Part t' c' \<Longrightarrow> t' \<noteq> t \<and> c' \<noteq> c"
    and "cb = User k \<or> cb = Part t' c'"
  shows "part_inv t c a b [] (add_callback x cb h) []"
proof -
  have fresh: "part_fresh t c cb" and ne: "cb \<noteq> Part t c" using assms(2,3) by (auto simp: part_fresh_def)
  show ?thesis
  proof (cases "phase_of h x")
    case (Some p)
    show ?thesis
    proof (cases p)
      case (Pending cbs ws)
      then have h: "phase_of h x = Some (Pending cbs ws)" using Some by simp
      have "part_inv t c a b [] (set_phase x (Pending (cbs @ [cb]) ws) h) []"
      proof (rule part_inv_frame [OF inv], goal_cases)
        case (1 y)
        then show ?case using h ne by (auto simp: owed_def queued_def dest: phase_Some_less)
      next
        case (2 y e)
        then show ?case using h by (auto simp: ended_def)
      next
        case 6
        show ?case by (rule outcome_frame [OF part_invD(2) [OF inv]]) (use h in auto)
      next
        case (7 y cb' cbs' ws')
        then show ?case using part_invD(3) [OF inv] h fresh by (auto split: if_splits)
      qed simp_all
      then show ?thesis using h by (simp add: add_callback_def)
    next
      case (Done e)
      then have h: "phase_of h x = Some (Done e)" using Some by simp
      have "part_inv t c a b [] h [Fire x cb e]"
      proof (rule part_inv_frame [OF inv], goal_cases)
        case 6
        show ?case using part_invD(2) [OF inv] h by (simp add: outcome_right_def)
      next
        case (7 y cb' cbs' ws')
        then show ?case using part_invD(3) [OF inv] by blast
      qed (use fresh ne in \<open>auto simp: owed_def\<close>)
      from run_actions_parts [OF this] show ?thesis
        using h by (simp add: add_callback_def del: run_actions.simps)
    qed
  qed (simp add: add_callback_def inv)
qed

lemma part_inv_finish_other:
  assumes inv: "part_inv t c a b [] h []" and "s \<noteq> t"
  shows "part_inv t c a b [] (finish_status s e h) []"
  unfolding finish_status_def
proof (rule run_actions_parts, rule part_inv_frame [OF inv], goal_cases)
  case 6
  show ?case using part_invD(2) [OF inv] by (simp add: outcome_right_def)
next
  case (7 y cb' cbs' ws')
  then show ?case using part_invD(3) [OF inv] by blast
qed (use assms(2) in \<open>auto simp: owed_def\<close>)

lemma part_inv_heap:
  assumes inv: "part_inv t c a b [] h []"
    and "\<And>x. queued h' x (Part t c) = queued h x (Part t c)" "\<And>x e. ended h' x e \<longleftrightarrow> ended h x e"
    and "hp_counters h' ! c = hp_counters h ! c" "length (hp_counters h) \<le> length (hp_counters h')"
      "length (hp_cells h) \<le> length (hp_cells h')" "hp_log h' = hp_log h"
    and "\<And>x cb cbs ws. phase_of h' x = Some (Pending cbs ws) \<Longrightarrow> cb \<in> set cbs \<Longrightarrow> part_fresh t c cb"
  shows "part_inv t c a b [] h' []"
proof (rule part_inv_frame [OF inv], goal_cases)
  case 6
  show ?case using part_invD(2) [OF inv] assms(3,7) by (simp add: outcome_right_def ended_def)
qed (use assms in \<open>auto simp: owed_def\<close>)

lemma part_inv_same_phases:
  assumes "part_inv t c a b [] h []" "\<And>x. phase_of h' x = phase_of h x" "hp_counters h' = hp_counters h"
    "length (hp_cells h') = length (hp_cells h)" "hp_log h' = hp_log h"
  shows "part_inv t c a b [] h' []"
  using assms by (intro part_inv_heap [OF assms(1)]) (auto simp: queued_def ended_def dest: part_invD(3))

lemma part_inv_with_timeout:
  assumes inv: "part_inv t c a b [] h []"
  shows "part_inv t c a b [] (snd (with_timeout timed settles h)) []"
proof -
  have none: "phase_of h (length (hp_cells h)) = None" by (simp add: phase_of_def)
  show ?thesis
  proof (rule part_inv_heap [OF inv], goal_cases)
    case (7 x cb cbs ws)
    then show ?case using part_invD(3) [OF inv] by (auto split: if_splits)
  next
    case (1 x)
    then show ?case using none by (auto simp: queued_def)
  next
    case (2 x e)
    then show ?case using none by (auto simp: ended_def)
  qed (auto simp: with_timeout_def Let_def)
qed

text \<open>A conjunction and everything its parts may do to it: the status itself is finished by
  its parts only.\<close>

definition conj_inv :: "nat \<Rightarrow> nat \<Rightarrow> nat \<Rightarrow> nat \<Rightarrow> heap \<Rightarrow> bool" where
  "conj_inv t c a b h \<longleftrightarrow> part_inv t c a b [] h [] \<and> parts_known h
     \<and> TimeoutTimer t \<notin> set (hp_timers h) \<and> SettleTimer t \<notin> set (hp_timers h)"

fun spares :: "nat \<Rightarrow> op \<Rightarrow> bool" where
  "spares t (Succeed s) = (s \<noteq> t)"
| "spares t (Fail s _) = (s \<noteq> t)"
| "spares t (Cancel s) = (s \<noteq> t)"
| "spares t _ = True"

lemma run_actions_timers [simp]: "hp_timers (run_actions as h) = hp_timers h"
  using run_actions_shape [of h as] by (simp add: same_shape_def)

lemma timers_frame [simp]:
  "hp_timers (add_callback x cb h) = hp_timers h" "hp_timers (finish_status s e h) = hp_timers h"
  "hp_timers (conj_cell h) = hp_timers h" "hp_timers (update_watcher s u tm h) = hp_timers h"
  "hp_timers (snd (status_poll s w h)) = hp_timers h"
  by (simp_all add: add_callback_def finish_status_def conj_cell_def with_timeout_def Let_def update_watcher_def
      status_poll_def del: run_actions.simps split: option.splits phase.splits)

lemma timers_apply_op:
  assumes "t < length (hp_cells h)" "spares t oper" "TimeoutTimer t \<notin> set (hp_timers h)" "SettleTimer t \<notin> set (hp_timers h)"
  shows "TimeoutTimer t \<notin> set (hp_timers (apply_op oper h)) \<and> SettleTimer t \<notin> set (hp_timers (apply_op oper h))"
proof (cases oper)
  case (Timer i)
  then show ?thesis
    using assms remove_nth_subset [of i "hp_timers h"] by (auto simp: timer_fires_def Let_def split: timer.splits)
next
  case (And a b)
  then show ?thesis using assms and_status_steps by simp
qed (use assms in \<open>auto simp: with_timeout_def Let_def setter_success_def setter_fail_def status_cancel_def\<close>)

lemma part_inv_apply_op:
  assumes inv: "conj_inv t c a b h" and spared: "spares t oper"
  shows "part_inv t c a b [] (apply_op oper h) []"
proof -
  have p: "part_inv t c a b [] h []" using inv by (simp add: conj_inv_def)
  show ?thesis
  proof (cases oper)
    case (New timed settles)
    then show ?thesis using part_inv_with_timeout [OF p] by simp
  next
    case (AddUser s k)
    then show ?thesis using part_inv_add_other [OF p, of "User k"] by simp
  next
    case (Succeed s)
    have "part_inv t c a b [] (h\<lparr> hp_timers := hp_timers h @ [SettleTimer s] \<rparr>) []"
      by (rule part_inv_same_phases [OF p]) simp_all
    then show ?thesis using Succeed spared part_inv_finish_other [OF p] by (simp add: setter_success_def)
  next
    case (Fail s err)
    then show ?thesis using spared part_inv_finish_other [OF p] by (simp add: setter_fail_def)
  next
    case (Cancel s)
    have "part_inv t c a b [] (upd_cell s (\<lambda>c. c\<lparr> ce_cancel := True \<rparr>) h) []"
      by (rule part_inv_same_phases [OF p]) simp_all
    then show ?thesis using Cancel spared part_inv_finish_other by (simp add: status_cancel_def)
  next
    case (Timer i)
    have "part_inv t c a b [] (h\<lparr> hp_timers := remove_nth i (hp_timers h) \<rparr>) []"
      by (rule part_inv_same_phases [OF p]) simp_all
    moreover have "hp_timers h ! i \<noteq> TimeoutTimer t \<and> hp_timers h ! i \<noteq> SettleTimer t" if "i < length (hp_timers h)"
      using inv nth_mem [OF that] unfolding conj_inv_def by metis
    ultimately show ?thesis
      using Timer p by (auto simp: timer_fires_def Let_def intro: part_inv_finish_other split: timer.splits)
  next
    case (And x y)
    let ?t = "length (hp_cells h)" and ?c = "length (hp_counters h)"
    have less: "t < ?t" "c < ?c" using part_invD(1) [OF p] by auto
    have "part_inv t c a b [] (conj_cell h) []"
      unfolding conj_cell_def
      by (rule part_inv_heap [OF part_inv_with_timeout [OF p, of False False]])
        (use less part_invD(3) [OF part_inv_with_timeout [OF p, of False False]] in
          \<open>auto simp: queued_def ended_def with_timeout_def Let_def nth_append\<close>)
    then show ?thesis
      unfolding And apply_op.simps and_status_steps
      using less by (intro part_inv_add_other) auto
  next
    case (Poll s w)
    show ?thesis
    proof (cases "\<exists>cbs ws. phase_of h s = Some (Pending cbs ws)")
      case True
      then obtain cbs ws where h: "phase_of h s = Some (Pending cbs ws)" by blast
      have "part_inv t c a b [] (set_phase s (Pending cbs (ws @ [w])) h) []"
        by (rule part_inv_heap [OF p])
          (use h part_invD(3) [OF p] phase_Some_less [OF h] in \<open>auto simp: queued_def ended_def split: if_splits\<close>)
      then show ?thesis using Poll h p by (simp add: status_poll_def)
    next
      case False
      then show ?thesis using Poll p by (auto simp: status_poll_def split: option.splits phase.splits)
    qed
  next
    case (Update s u tm)
    have "part_inv t c a b [] (update_watcher s u tm h) []"
      by (rule part_inv_same_phases [OF p]) (simp_all, simp_all add: update_watcher_def Let_def)
    then show ?thesis using Update by simp
  qed
qed

lemma conj_inv_apply_op: "conj_inv t c a b h \<Longrightarrow> spares t oper \<Longrightarrow> conj_inv t c a b (apply_op oper h)"
  using part_inv_apply_op parts_known_apply_op timers_apply_op part_invD(1) unfolding conj_inv_def by metis

lemma conj_inv_run_ops:
  "conj_inv t c a b h \<Longrightarrow> \<forall>oper \<in> set ops. spares t oper \<Longrightarrow> conj_inv t c a b (run_ops ops h)"
  unfolding run_ops_def by (induction ops arbitrary: h) (simp_all add: conj_inv_apply_op del: apply_op.simps)

lemma parts_known_run_ops: "parts_known h \<Longrightarrow> parts_known (run_ops ops h)"
  unfolding run_ops_def by (induction ops arbitrary: h) (simp_all add: parts_known_apply_op del: apply_op.simps)

lemma parts_known_new: "parts_known heap_new"
  by (simp add: parts_known_def) (simp add: heap_new_def phase_of_def)

lemma status_ended:
  "status_success h s \<longleftrightarrow> ended h s None" "status_exception h s = Some err \<longleftrightarrow> ended h s (Some err)"
  "done_state h s \<longleftrightarrow> (\<exists>e. ended h s e)"
  by (auto simp: status_success_def status_exception_def done_state_def status_end_ended [symmetric] split: option.splits)

lemma part_inv_settled:
  assumes inv: "part_inv t c a b [] h []"
  shows "ended h t e \<Longrightarrow> deserved a b h e"
    and "ended h a (Some err) \<or> ended h b (Some err) \<or> ended h a None \<and> ended h b None \<Longrightarrow> \<exists>e. ended h t e"
proof -
  have zero: "owed t c [] h [] x = 0" if "ended h x e" for x e
    using that by (simp add: owed_def queued_def ended_def)
  show "ended h t e \<Longrightarrow> deserved a b h e" using part_invD(8) [OF inv] by blast
  assume ends: "ended h a (Some err) \<or> ended h b (Some err) \<or> ended h a None \<and> ended h b None"
  show "\<exists>e. ended h t e"
  proof (rule ccontr)
    assume "\<nexists>e. ended h t e"
    then have "status_end h t = None" by (simp add: status_end_None)
    then have "0 < hp_counters h ! c" "\<not> ended h a (Some err)" "\<not> ended h b (Some err)"
      using part_invD(9) [OF inv] part_invD(10) [OF inv, of a err] part_invD(10) [OF inv, of b err] zero by (auto split: if_splits)
    moreover have "ended h a None \<and> ended h b None \<Longrightarrow> hp_counters h ! c = 0"
      using part_invD(7) [OF inv] zero [of a None] zero [of b None] by (simp add: share_def)
    ultimately show False using ends by auto
  qed
qed

text \<open>C16. A conjunction follows its parts: whatever happens after \<open>a.and(b)\<close> is made
  (further conjunctions, timers, callbacks, cancellations, as long as nobody cancels the conjunction
  itself), it has succeeded exactly when both parts have, it is finished as soon as one part has failed, and
  its error is the error of a failed part.\<close>

theorem and_follows_parts:
  assumes "a < length (hp_cells (run_ops ops heap_new))" "b < length (hp_cells (run_ops ops heap_new))"
    and "and_status a b (run_ops ops heap_new) = (t, h1)"
    and "\<forall>oper \<in> set later. spares t oper"
  shows "(status_success (run_ops later h1) t \<longleftrightarrow>
            status_success (run_ops later h1) a \<and> status_success (run_ops later h1) b)
       \<and> (done_state (run_ops later h1) t \<longleftrightarrow>
            status_success (run_ops later h1) a \<and> status_success (run_ops later h1) b
          \<or> status_exception (run_ops later h1) a \<noteq> None \<or> status_exception (run_ops later h1) b \<noteq> None)
       \<and> (status_exception (run_ops later h1) t = Some err \<longrightarrow>
            status_exception (run_ops later h1) a = Some err \<or> status_exception (run_ops later h1) b = Some err)"
proof -
  let ?start = "run_ops ops heap_new" and ?h = "run_ops later h1"
  have known: "parts_known ?start" by (rule parts_known_run_ops [OF parts_known_new])
  have t: "t = length (hp_cells ?start)" and h1: "h1 = apply_op (And a b) ?start"
    using assms(3) by (auto simp: and_status_def status_new_def with_timeout_def Let_def)
  have p: "part_inv t (length (hp_counters ?start)) a b [] h1 []"
    unfolding t h1 apply_op.simps by (rule part_inv_created [OF known assms(1,2)])
  have "conj_inv t (length (hp_counters ?start)) a b h1"
    using p parts_known_apply_op [OF known, of "And a b"] parts_known_timers [OF known, of t] t
    unfolding conj_inv_def h1 by (auto simp: and_status_steps)
  then have inv: "part_inv t (length (hp_counters ?start)) a b [] ?h []"
    using conj_inv_run_ops [OF _ assms(4)] unfolding conj_inv_def by blast
  note settled = part_inv_settled [OF inv]
  have exc: "status_exception ?h x \<noteq> None \<longleftrightarrow> (\<exists>err. ended ?h x (Some err))" for x
    using status_ended(2) by (metis not_Some_eq)
  have up: "ended ?h t None" if "ended ?h a None" "ended ?h b None"
  proof -
    obtain e where e: "ended ?h t e" using settled(2) \<open>ended ?h a None\<close> \<open>ended ?h b None\<close> by blast
    have "e = None"
      using settled(1) [OF e] that by (auto simp: deserved_def dest: ended_unique split: option.splits)
    then show ?thesis using e by simp
  qed
  have down: "ended ?h a None \<and> ended ?h b None" if "ended ?h t None"
    using settled(1) [OF that] by (simp add: deserved_def)
  have bad: "ended ?h a (Some err) \<or> ended ?h b (Some err)" if "ended ?h t (Some err)" for err
    using settled(1) [OF that] by (simp add: deserved_def)
  have 1: "status_success ?h t \<longleftrightarrow> status_success ?h a \<and> status_success ?h b"
    using up down by (auto simp: status_ended)
  have 2: "status_exception ?h t = Some err \<longrightarrow> status_exception ?h a = Some err \<or> status_exception ?h b = Some err"
    using bad by (simp add: status_ended)
  have 3: "done_state ?h t \<longleftrightarrow> status_success ?h a \<and> status_success ?h b
      \<or> status_exception ?h a \<noteq> None \<or> status_exception ?h b \<noteq> None"
    unfolding exc status_ended using settled(2) up down bad by (metis option.exhaust)
  show ?thesis by (intro conjI 1 2 3)
qed

theorem and_follows_parts_witness:
  "\<not> status_success (run_ops [Succeed 0, Fail 1 StCancelled, Cancel 0] (snd (and_status 0 1 (run_ops [New False False, New False False] heap_new)))) 2"
proof -
  let ?start = "run_ops [New False False, New False False] heap_new"
  have "length (hp_cells ?start) = 2" "fst (and_status 0 1 ?start) = 2" by code_simp+
  then have "0 < length (hp_cells ?start)" "1 < length (hp_cells ?start)"
    "and_status 0 1 ?start = (2, snd (and_status 0 1 ?start))" by (simp_all add: prod_eq_iff)
  from and_follows_parts [OF this, of "[Succeed 0, Fail 1 StCancelled, Cancel 0]"]
  have "status_success (run_ops [Succeed 0, Fail 1 StCancelled, Cancel 0] (snd (and_status 0 1 ?start))) 2 \<longrightarrow>
      status_success (run_ops [Succeed 0, Fail 1 StCancelled, Cancel 0] (snd (and_status 0 1 ?start))) 1" by simp
  moreover have "\<not> status_success (run_ops [Succeed 0, Fail 1 StCancelled, Cancel 0] (snd (and_status 0 1 ?start))) 1"
    by code_simp
  ultimately show ?thesis by blast
qed

end
