(* ===== verification/Subscriptions.thy ===== *)
theory Subscriptions
  imports Prelude
begin

text \<open>
  \<open>Fanout\<close>, \<open>Subscription\<close> (\<open>core/subscription.rs\<close>) and \<open>SubToken\<close> (\<open>core/status.rs\<close>): one producer's values
  fanned out to a queue per listener. A listener is addressed by its number; its channel is the
  values sent and not yet received, with a flag for a receiver that is still there.
\<close>

section \<open>Fan-out\<close>

record 'a channel =
  ch_queue :: "'a list"
  ch_open :: bool

record 'a fanout =
  fo_latest :: "'a option"
  fo_listeners :: "nat list"
  fo_channels :: "'a channel list"

definition fanout_new :: "'a fanout" where
  "fanout_new = \<lparr> fo_latest = None, fo_listeners = [], fo_channels = [] \<rparr>"

definition is_open :: "'a fanout \<Rightarrow> nat \<Rightarrow> bool" where
  "is_open f i = (i < length (fo_channels f) \<and> ch_open (fo_channels f ! i))"

text \<open>\<open>tx.send\<close>: fails, changing nothing, when the receiver is gone.\<close>

definition send :: "'a \<Rightarrow> nat \<Rightarrow> 'a channel list \<Rightarrow> 'a channel list" where
  "send v i chs = (if i < length chs \<and> ch_open (chs ! i) then chs[i := (chs ! i)\<lparr> ch_queue := ch_queue (chs ! i) @ [v] \<rparr>] else chs)"

definition post :: "'a \<Rightarrow> 'a fanout \<Rightarrow> 'a option \<times> 'a fanout" where
  "post v f =
     (fo_latest f,
      \<lparr> fo_latest = Some v,
        fo_listeners = filter (is_open f) (fo_listeners f),
        fo_channels = fold (send v) (fo_listeners f) (fo_channels f) \<rparr>)"

definition listen :: "'a fanout \<Rightarrow> nat \<times> 'a fanout" where
  "listen f =
     (let i = length (fo_channels f);
          initial = (case fo_latest f of Some v \<Rightarrow> [v] | None \<Rightarrow> [])
      in (i, f\<lparr> fo_listeners := filter (is_open f) (fo_listeners f) @ [i],
                fo_channels := fo_channels f @ [\<lparr> ch_queue = initial, ch_open = True \<rparr>] \<rparr>))"

definition clear :: "'a fanout \<Rightarrow> 'a fanout" where
  "clear f = f\<lparr> fo_latest := None \<rparr>"

definition listener_count :: "'a fanout \<Rightarrow> nat" where
  "listener_count f = length (filter (is_open f) (fo_listeners f))"

text \<open>The receiver's side: a waiting value, if there is one; dropping the receiver.\<close>

definition try_recv :: "nat \<Rightarrow> 'a fanout \<Rightarrow> 'a option \<times> 'a fanout" where
  "try_recv i f =
     (case ch_queue (fo_channels f ! i) of
        [] \<Rightarrow> (None, f)
      | v # q \<Rightarrow> (Some v, f\<lparr> fo_channels := (fo_channels f)[i := (fo_channels f ! i)\<lparr> ch_queue := q \<rparr>] \<rparr>))"

definition drop_receiver :: "nat \<Rightarrow> 'a fanout \<Rightarrow> 'a fanout" where
  "drop_receiver i f = f\<lparr> fo_channels := (fo_channels f)[i := \<lparr> ch_queue = [], ch_open = False \<rparr>] \<rparr>"

section \<open>Subscriptions\<close>

text \<open>A subscription is a listener, its data key and a token whose drop unregisters it; a token runs
  its closure at most once, and a \<open>noop\<close> token never. Closures are identities, running one is an entry of the log.\<close>

record subscription =
  su_listener :: nat
  su_key :: string
  su_token :: "nat option"

definition token_drop :: "nat option \<Rightarrow> nat list \<Rightarrow> nat option \<times> nat list" where
  "token_drop t log = (case t of Some f \<Rightarrow> (None, log @ [f]) | None \<Rightarrow> (None, log))"

section \<open>A listener gets every value\<close>

datatype 'a fan_op = FPost 'a | FListen | FClear | FRecv nat | FDrop nat

text \<open>Runs operations, collecting what the listener \<open>i\<close> receives.\<close>

fun fan_step :: "'a fan_op \<Rightarrow> 'a fanout \<Rightarrow> 'a fanout" where
  "fan_step (FPost v) f = snd (post v f)"
| "fan_step FListen f = snd (listen f)"
| "fan_step FClear f = clear f"
| "fan_step (FRecv j) f = snd (try_recv j f)"
| "fan_step (FDrop j) f = drop_receiver j f"

fun received :: "nat \<Rightarrow> 'a fan_op list \<Rightarrow> 'a fanout \<Rightarrow> 'a list" where
  "received i [] f = []"
| "received i (oper # ops) f =
     (if oper = FRecv i then (case fst (try_recv i f) of Some v \<Rightarrow> [v] | None \<Rightarrow> []) else [])
       @ received i ops (fan_step oper f)"

fun posted :: "'a fan_op list \<Rightarrow> 'a list" where
  "posted [] = []"
| "posted (FPost v # ops) = v # posted ops"
| "posted (_ # ops) = posted ops"

definition queue_of :: "'a fanout \<Rightarrow> nat \<Rightarrow> 'a list" where
  "queue_of f i = ch_queue (fo_channels f ! i)"

definition fan_wf :: "'a fanout \<Rightarrow> bool" where
  "fan_wf f \<longleftrightarrow> distinct (fo_listeners f) \<and> (\<forall>i \<in> set (fo_listeners f). i < length (fo_channels f))
     \<and> (\<forall>i. is_open f i \<longrightarrow> i \<in> set (fo_listeners f))"

lemma nth_upd: "j < length xs \<Longrightarrow> xs[i := x] ! j = (if i = j then x else xs ! j)"
  by (cases "i < length xs") (simp_all add: nth_list_update)

lemma length_send [simp]: "length (send v i chs) = length chs"
  by (simp add: send_def)

lemma length_fold_send [simp]: "length (fold (send v) is chs) = length chs"
  by (induction "is" arbitrary: chs) simp_all

lemma send_nth:
  "j < length chs \<Longrightarrow> send v i chs ! j = (if j = i \<and> ch_open (chs ! j) then (chs ! j)\<lparr> ch_queue := ch_queue (chs ! j) @ [v] \<rparr> else chs ! j)"
  by (auto simp: send_def nth_list_update)

lemma fold_send_nth:
  "distinct is \<Longrightarrow> j < length chs \<Longrightarrow>
     fold (send v) is chs ! j =
       (if j \<in> set is \<and> ch_open (chs ! j) then (chs ! j)\<lparr> ch_queue := ch_queue (chs ! j) @ [v] \<rparr> else chs ! j)"
  by (induction "is" arbitrary: chs) (auto simp: send_nth)

lemma post_view:
  assumes "fan_wf f"
  shows "is_open (snd (post v f)) i = is_open f i"
    and "is_open f i \<Longrightarrow> queue_of (snd (post v f)) i = queue_of f i @ [v]"
  using assms by (auto simp: fan_wf_def post_def is_open_def queue_of_def fold_send_nth)

lemma fan_wf_new: "fan_wf fanout_new"
  by (simp add: fan_wf_def fanout_new_def is_open_def)

lemma fan_wf_step: "fan_wf f \<Longrightarrow> fan_wf (fan_step oper f)"
proof (cases oper)
  case (FPost v)
  assume wf: "fan_wf f"
  show ?thesis
    using wf post_view(1) [OF wf, of v] FPost unfolding fan_wf_def by (auto simp: post_def)
next
  case FListen
  assume wf: "fan_wf f"
  have "i = length (fo_channels f) \<or> is_open f i" if "is_open (snd (listen f)) i" for i
    using that by (auto simp: listen_def Let_def is_open_def nth_append split: if_splits)
  then show ?thesis using wf FListen unfolding fan_wf_def by (auto simp: listen_def Let_def is_open_def)
next
  case (FRecv j)
  assume wf: "fan_wf f"
  have "is_open (snd (try_recv j f)) i = is_open f i" for i
    by (cases "j < length (fo_channels f)")
      (auto simp: try_recv_def is_open_def nth_list_update list_update_beyond split: list.splits)
  moreover have "fo_listeners (snd (try_recv j f)) = fo_listeners f" "length (fo_channels (snd (try_recv j f))) = length (fo_channels f)"
    by (auto simp: try_recv_def split: list.splits)
  ultimately show ?thesis using wf FRecv by (simp add: fan_wf_def)
next
  case (FDrop j)
  assume wf: "fan_wf f"
  have "is_open f i" if "is_open (drop_receiver j f) i" for i
    using that by (cases "j < length (fo_channels f)")
      (auto simp: drop_receiver_def is_open_def nth_list_update list_update_beyond split: if_splits)
  then show ?thesis using wf FDrop by (auto simp: fan_wf_def drop_receiver_def)
qed (simp add: fan_wf_def clear_def is_open_def)

text \<open>What one operation does to the stream of an open listener: what it has received and what
  is queued for it grow by the value posted and by nothing else.\<close>

lemma step_stream:
  assumes wf: "fan_wf f" and "is_open f i" "oper \<noteq> FDrop i"
  shows "is_open (fan_step oper f) i"
    and "received i [oper] f @ queue_of (fan_step oper f) i = queue_of f i @ posted [oper]"
proof -
  show "is_open (fan_step oper f) i"
    using assms post_view(1) [OF wf]
    by (cases oper) (auto simp: is_open_def listen_def Let_def clear_def try_recv_def drop_receiver_def nth_append
      nth_upd split: list.splits)
  show "received i [oper] f @ queue_of (fan_step oper f) i = queue_of f i @ posted [oper]"
    using assms post_view(2) [OF wf]
    by (cases oper) (auto simp: is_open_def queue_of_def listen_def Let_def clear_def try_recv_def drop_receiver_def nth_append
      nth_upd split: list.splits)
qed

lemma received_append: "received i (ops @ ops') f = received i ops f @ received i ops' (fold fan_step ops f)"
  by (induction ops arbitrary: f) simp_all

lemma stream_of_listener:
  assumes "fan_wf f" "is_open f i" "FDrop i \<notin> set ops"
  shows "received i ops f @ queue_of (fold fan_step ops f) i = queue_of f i @ posted ops"
  using assms
proof (induction ops arbitrary: f)
  case (Cons oper ops)
  have ne: "oper \<noteq> FDrop i" using Cons.prems(3) by auto
  note step = step_stream [OF Cons.prems(1,2) ne]
  have "received i (oper # ops) f = received i [oper] f @ received i ops (fan_step oper f)" by simp
  moreover have "posted (oper # ops) = posted [oper] @ posted ops" by (cases oper) simp_all
  moreover have "received i ops (fan_step oper f) @ queue_of (fold fan_step ops (fan_step oper f)) i
      = queue_of (fan_step oper f) i @ posted ops"
    by (rule Cons.IH [OF fan_wf_step [OF Cons.prems(1)] step(1)]) (use Cons.prems(3) in simp)
  ultimately show ?case using step(2) by (metis append.assoc fold_simps(2))
qed simp

text \<open>C17. A listener receives the latest value at registration, if there is one, and then every
  later post in order, exactly once: whatever else happens to the fan-out (other listeners, drops of
  other receivers, clears), what it has received followed by what is still queued for it is exactly that stream.\<close>

theorem listener_gets_every_post:
  assumes "listen (fold fan_step before_ops fanout_new) = (i, f)" "FDrop i \<notin> set ops"
  shows "received i ops f @ queue_of (fold fan_step ops f) i
       = (case fo_latest (fold fan_step before_ops fanout_new) of Some v \<Rightarrow> [v] | None \<Rightarrow> []) @ posted ops"
proof -
  let ?f = "fold fan_step before_ops fanout_new"
  have wf: "fan_wf g \<Longrightarrow> fan_wf (fold fan_step before_ops g)" for g :: "'a fanout"
    by (induction before_ops arbitrary: g) (simp_all add: fan_wf_step)
  have f: "f = fan_step FListen ?f" and i: "i = length (fo_channels ?f)"
    using assms(1) by (auto simp: listen_def Let_def)
  have "is_open f i" "queue_of f i = (case fo_latest ?f of Some v \<Rightarrow> [v] | None \<Rightarrow> [])"
    unfolding f i by (simp_all add: listen_def Let_def is_open_def queue_of_def nth_append)
  with stream_of_listener [of f i ops] assms(2) wf [OF fan_wf_new] show ?thesis
    by (simp add: f fan_wf_step del: fan_step.simps)
qed

theorem listener_gets_every_post_witness:
  "received 0 [FPost 1, FListen, FPost 0, FRecv 0, FRecv 0, FPost (1::int)] (snd (listen (fold fan_step [FPost 0] fanout_new)))
     @ queue_of (fold fan_step [FPost 1, FListen, FPost 0, FRecv 0, FRecv 0, FPost 1] (snd (listen (fold fan_step [FPost 0] fanout_new)))) 0
   = [0, 1, 0, 1]"
proof -
  have "fst (listen (fold fan_step [FPost (0::int)] fanout_new)) = 0" by code_simp
  then have "listen (fold fan_step [FPost (0::int)] fanout_new) = (0, snd (listen (fold fan_step [FPost 0] fanout_new)))"
    by (simp add: prod_eq_iff)
  note stream = listener_gets_every_post [OF this, of "[FPost 1, FListen, FPost 0, FRecv 0, FRecv 0, FPost 1]"]
  have latest: "fo_latest (fold fan_step [FPost (0::int)] fanout_new) = Some 0" by code_simp
  have posted: "posted [FPost 1, FListen, FPost 0, FRecv 0, FRecv 0, FPost (1::int)] = [1, 0, 1]" by simp
  have "FDrop 0 \<notin> set [FPost 1, FListen, FPost 0, FRecv 0, FRecv 0, FPost (1::int)]" by simp
  from stream [OF this] show ?thesis by (simp only: latest posted option.case append.simps)
qed

end
