(* ===== verification/Suspenders.thy ===== *)
theory Suspenders
  imports Prelude
begin

unbundle bit_operations_syntax

text \<open>
  The signal suspenders (\<open>engine/suspender.rs\<close>) and the watcher the engine runs for each of them
  (\<open>RunEngine::register_suspender\<close>). Time is in timer ticks. A watched source is the sequence of the values posted to
  its fan-out with their times, and the time its producers drop it. A listener's channel is what it receives:
  the latest value at once, then every later post. A task is polled as soon as it has something to do, except that the
  watcher may take \<open>lag\<close> ticks between the end of a suspension and re-arming; a resume delay that ends at the very tick of
  a post wins the select.
\<close>

section \<open>Bad regions\<close>

text \<open>The order of IEEE doubles: a NaN compares false, the two zeros are equal.\<close>

definition f64_is_nan :: "f64 \<Rightarrow> bool" where
  "f64_is_nan x = (take_bit 63 (uint x) > 0x7FF0000000000000)"

definition f64_key :: "f64 \<Rightarrow> int" where
  "f64_key x = (if bit x 63 then - take_bit 63 (uint x) else take_bit 63 (uint x))"

definition f64_lt :: "f64 \<Rightarrow> f64 \<Rightarrow> bool" where
  "f64_lt x y = (\<not> f64_is_nan x \<and> \<not> f64_is_nan y \<and> f64_key x < f64_key y)"

definition f64_le :: "f64 \<Rightarrow> f64 \<Rightarrow> bool" where
  "f64_le x y = (\<not> f64_is_nan x \<and> \<not> f64_is_nan y \<and> f64_key x \<le> f64_key y)"

datatype threshold_direction = BadIfBelow | BadIfAbove

record ('v, 'p) signal_suspender =
  sg_name :: string
  sg_bad :: "'v \<Rightarrow> bool"
  sg_resume_delay :: "nat option"
  sg_auto_resume :: bool
  sg_justification :: string
  sg_pre_plan :: "'p option"
  sg_post_plan :: "'p option"

definition signal_suspender_new :: "string \<Rightarrow> ('v \<Rightarrow> bool) \<Rightarrow> string \<Rightarrow> ('v, 'p) signal_suspender" where
  "signal_suspender_new name bad justification =
     \<lparr> sg_name = name, sg_bad = bad, sg_resume_delay = None, sg_auto_resume = True,
       sg_justification = justification, sg_pre_plan = None, sg_post_plan = None \<rparr>"

definition with_resume_delay :: "nat \<Rightarrow> ('v, 'p) signal_suspender \<Rightarrow> ('v, 'p) signal_suspender" where
  "with_resume_delay d s = s\<lparr> sg_resume_delay := Some d \<rparr>"

definition with_pre_plan :: "'p \<Rightarrow> ('v, 'p) signal_suspender \<Rightarrow> ('v, 'p) signal_suspender" where
  "with_pre_plan p s = s\<lparr> sg_pre_plan := Some p \<rparr>"

definition with_post_plan :: "'p \<Rightarrow> ('v, 'p) signal_suspender \<Rightarrow> ('v, 'p) signal_suspender" where
  "with_post_plan p s = s\<lparr> sg_post_plan := Some p \<rparr>"

definition suspend_bool_high :: "string \<Rightarrow> (bool, 'p) signal_suspender" where
  "suspend_bool_high name = signal_suspender_new name (\<lambda>v. v) (name @ '': signal high'')"

definition suspend_bool_low :: "string \<Rightarrow> (bool, 'p) signal_suspender" where
  "suspend_bool_low name = signal_suspender_new name (\<lambda>v. \<not> v) (name @ '': signal low'')"

text \<open>\<open>fmt\<close> is the standard library's display of a double.\<close>

definition suspend_threshold ::
  "(f64 \<Rightarrow> string) \<Rightarrow> string \<Rightarrow> f64 \<Rightarrow> threshold_direction \<Rightarrow> (f64, 'p) signal_suspender" where
  "suspend_threshold fmt name threshold direction =
     signal_suspender_new name
       (\<lambda>v. case direction of BadIfBelow \<Rightarrow> f64_lt v threshold | BadIfAbove \<Rightarrow> f64_lt threshold v)
       (name @ '': signal '' @ (case direction of BadIfBelow \<Rightarrow> ''<'' | BadIfAbove \<Rightarrow> ''>'') @ '' '' @ fmt threshold)"

definition suspend_outside_band ::
  "(f64 \<Rightarrow> string) \<Rightarrow> string \<Rightarrow> f64 \<Rightarrow> f64 \<Rightarrow> (f64, 'p) signal_suspender" where
  "suspend_outside_band fmt name band_bottom band_top =
     signal_suspender_new name (\<lambda>v. f64_le v band_bottom \<or> f64_le band_top v)
       (name @ '': outside ('' @ fmt band_bottom @ '', '' @ fmt band_top @ '')'')"

definition suspend_when_changed :: "string \<Rightarrow> 'v \<Rightarrow> ('v, 'p) signal_suspender" where
  "suspend_when_changed name expected =
     (signal_suspender_new name (\<lambda>v. v \<noteq> expected) (name @ '': value changed (manual resume required)''))
       \<lparr> sg_auto_resume := False \<rparr>"

definition allow_resume :: "('v, 'p) signal_suspender \<Rightarrow> ('v, 'p) signal_suspender" where
  "allow_resume s = s\<lparr> sg_auto_resume := True, sg_justification := sg_name s @ '': value changed from expected'' \<rparr>"

section \<open>Waiting on a source\<close>

record 'v source =
  so_posts :: "(nat \<times> 'v) list"
  so_closed :: "nat option"

definition gone :: "'v source \<Rightarrow> nat \<Rightarrow> bool" where
  "gone src t = (case so_closed src of Some c \<Rightarrow> c \<le> t | None \<Rightarrow> False)"

definition latest_at :: "'v source \<Rightarrow> nat \<Rightarrow> 'v option" where
  "latest_at src t =
     (case filter (\<lambda>(u, _). u \<le> t) (so_posts src) of [] \<Rightarrow> None | ps \<Rightarrow> Some (snd (last ps)))"

definition listen_at :: "'v source \<Rightarrow> nat \<Rightarrow> (nat \<times> 'v) list" where
  "listen_at src t =
     (if gone src t then []
      else (case latest_at src t of None \<Rightarrow> [] | Some v \<Rightarrow> [(t, v)])
             @ filter (\<lambda>(u, _). t < u \<and> \<not> gone src u) (so_posts src))"

text \<open>Both waits return the time they resolve, or \<open>None\<close> if they never do.\<close>

fun await_bad :: "('v \<Rightarrow> bool) \<Rightarrow> (nat \<times> 'v) list \<Rightarrow> nat option" where
  "await_bad bad [] = None"
| "await_bad bad ((t, v) # rest) = (if bad v then Some t else await_bad bad rest)"

fun good_loop ::
  "('v \<Rightarrow> bool) \<Rightarrow> nat option \<Rightarrow> nat option \<Rightarrow> nat \<Rightarrow> 'v \<Rightarrow> (nat \<times> 'v) list \<Rightarrow> nat option" where
  "good_loop bad resume_delay closed now v rest =
     (if bad v then
        (case rest of
           (t, nxt) # rest' \<Rightarrow> good_loop bad resume_delay closed t nxt rest'
         | [] \<Rightarrow> closed)
      else
        (case resume_delay of
           None \<Rightarrow> Some now
         | Some delay \<Rightarrow>
             (case rest of
                (t, nxt) # rest' \<Rightarrow>
                  (if t < now + delay then good_loop bad resume_delay closed t nxt rest' else Some (now + delay))
              | [] \<Rightarrow> (case closed of Some c \<Rightarrow> Some (min c (now + delay)) | None \<Rightarrow> Some (now + delay)))))"

declare good_loop.simps [simp del]

definition await_good_stable ::
  "('v \<Rightarrow> bool) \<Rightarrow> nat option \<Rightarrow> nat option \<Rightarrow> nat \<Rightarrow> (nat \<times> 'v) list \<Rightarrow> nat option" where
  "await_good_stable bad resume_delay closed t chan =
     (case chan of [] \<Rightarrow> map_option (max t) closed | (u, v) # rest \<Rightarrow> good_loop bad resume_delay closed u v rest)"

definition sg_trip :: "('v, 'p) signal_suspender \<Rightarrow> 'v source \<Rightarrow> nat \<Rightarrow> nat option" where
  "sg_trip s src t = await_bad (sg_bad s) (listen_at src t)"

definition sg_watch :: "('v, 'p) signal_suspender \<Rightarrow> 'v source \<Rightarrow> nat \<Rightarrow> nat option" where
  "sg_watch s src t =
     (if \<not> sg_auto_resume s then None
      else await_good_stable (sg_bad s) (sg_resume_delay s) (so_closed src) t (listen_at src t))"

text \<open>Is the suspender tripped now, and when does it clear?\<close>

definition sg_tripped :: "('v, 'p) signal_suspender \<Rightarrow> 'v source \<Rightarrow> nat \<Rightarrow> nat option option" where
  "sg_tripped s src t =
     (if gone src t then None
      else case latest_at src t of
        Some v \<Rightarrow> (if sg_bad s v then Some (sg_watch s src t) else None)
      | None \<Rightarrow> None)"

section \<open>The watcher\<close>

text \<open>The first \<open>n\<close> rounds of the watcher's loop from the time \<open>t\<close>: when the suspender trips and when the
  episode is over.\<close>

fun episodes :: "nat \<Rightarrow> ('v, 'p) signal_suspender \<Rightarrow> 'v source \<Rightarrow> nat \<Rightarrow> nat \<Rightarrow> (nat \<times> nat option) list" where
  "episodes lag s src 0 t = []"
| "episodes lag s src (Suc n) t =
     (case sg_trip s src t of
        None \<Rightarrow> []
      | Some bad_at \<Rightarrow>
          (bad_at, sg_watch s src bad_at) #
          (case sg_watch s src bad_at of
             None \<Rightarrow> []
           | Some good_at \<Rightarrow> episodes lag s src n (good_at + lag)))"

text \<open>What reaches the engine: a suspension for every episode that begins while a run is in
  progress, lifted by the signal or by removing the suspender, whichever comes first.\<close>

definition earlier :: "nat option \<Rightarrow> nat option \<Rightarrow> nat option" where
  "earlier a b = (case (a, b) of (Some x, Some y) \<Rightarrow> Some (min x y) | (None, _) \<Rightarrow> b | (_, None) \<Rightarrow> a)"

definition suspensions ::
  "(nat \<Rightarrow> bool) \<Rightarrow> nat option \<Rightarrow> (nat \<times> nat option) list \<Rightarrow> (nat \<times> nat option) list" where
  "suspensions is_running removed eps =
     map (\<lambda>(bad_at, good_at). (bad_at, earlier good_at removed))
       (filter (\<lambda>(bad_at, _). is_running bad_at \<and> (case removed of None \<Rightarrow> True | Some r \<Rightarrow> bad_at < r)) eps)"

section \<open>Resuming\<close>

text \<open>Posts in the order of their times; several may share a tick.\<close>

definition chan_sorted :: "(nat \<times> 'v) list \<Rightarrow> bool" where
  "chan_sorted chan \<longleftrightarrow> sorted (map fst chan)"

text \<open>The value at position \<open>i\<close> of the channel settles the wait: it is good and nothing more is received
  before the resume delay has passed. \<open>settles_first\<close>: no value before it does.\<close>

definition delay_of :: "nat option \<Rightarrow> nat" where
  "delay_of resume_delay = (case resume_delay of None \<Rightarrow> 0 | Some d \<Rightarrow> d)"

definition settles :: "('v \<Rightarrow> bool) \<Rightarrow> nat option \<Rightarrow> (nat \<times> 'v) list \<Rightarrow> nat \<Rightarrow> bool" where
  "settles bad resume_delay chan i \<longleftrightarrow>
     i < length chan \<and> \<not> bad (snd (chan ! i))
     \<and> (resume_delay = None \<or> Suc i = length chan
        \<or> fst (chan ! i) + delay_of resume_delay \<le> fst (chan ! Suc i))"

definition settles_first :: "('v \<Rightarrow> bool) \<Rightarrow> nat option \<Rightarrow> (nat \<times> 'v) list \<Rightarrow> nat \<Rightarrow> bool" where
  "settles_first bad resume_delay chan i \<longleftrightarrow>
     settles bad resume_delay chan i \<and> (\<forall>j<i. \<not> settles bad resume_delay chan j)"

lemma settles_Suc: "settles bad d (p # chan) (Suc i) = settles bad d chan i"
  by (simp add: settles_def)

lemma settles_first_Cons:
  "settles_first bad d (p # chan) i \<longleftrightarrow>
     (if settles bad d (p # chan) 0 then i = 0
      else \<exists>i'. i = Suc i' \<and> settles_first bad d chan i')"
proof (cases i)
  case 0
  then show ?thesis by (simp add: settles_first_def)
next
  case (Suc i')
  have "(\<forall>j<Suc i'. \<not> settles bad d (p # chan) j) \<longleftrightarrow>
      \<not> settles bad d (p # chan) 0 \<and> (\<forall>j<i'. \<not> settles bad d chan j)"
    by (auto simp: All_less_Suc2 settles_Suc)
  then show ?thesis by (auto simp: Suc settles_first_def settles_Suc)
qed

lemma settles_first_Nil: "\<not> settles_first bad d [] i"
  by (simp add: settles_first_def settles_def)

lemma good_loop_iff:
  assumes "\<forall>c. closed = Some c \<longrightarrow> r < c"
  shows "good_loop bad d closed now v rest = Some r \<longleftrightarrow>
     (\<exists>i. settles_first bad d ((now, v) # rest) i \<and> r = fst (((now, v) # rest) ! i) + delay_of d)"
proof (induction rest arbitrary: now v)
  case Nil
  show ?case
    using assms
    by (subst good_loop.simps)
      (auto simp: settles_first_Cons settles_first_Nil settles_def delay_of_def split: option.splits)
next
  case (Cons p rest)
  obtain t nxt where p: "p = (t, nxt)" by (cases p)
  show ?case
  proof (cases "settles bad d ((now, v) # p # rest) 0")
    case True
    then show ?thesis
      by (subst good_loop.simps)
        (auto simp: settles_first_Cons [of _ _ "(now, v)"] p settles_def delay_of_def split: option.splits)
  next
    case False
    then have "good_loop bad d closed now v (p # rest) = good_loop bad d closed t nxt rest"
      by (subst good_loop.simps) (auto simp: p settles_def delay_of_def split: option.splits)
    then show ?thesis
      using False Cons.IH [of t nxt] by (auto simp: settles_first_Cons [of _ _ "(now, v)"] p)
  qed
qed

lemma not_gone_iff: "\<not> gone src r \<longleftrightarrow> (\<forall>c. so_closed src = Some c \<longrightarrow> r < c)"
  by (auto simp: gone_def split: option.splits)

lemma sorted_filter_fst: "chan_sorted chan \<Longrightarrow> chan_sorted (filter Q chan)"
  by (simp add: chan_sorted_def sorted_filter)

lemma sorted_listen:
  assumes "chan_sorted (so_posts src)"
  shows "chan_sorted (listen_at src t)"
  using sorted_filter_fst [OF assms, of "\<lambda>(u, _). t < u \<and> \<not> gone src u"]
  by (auto simp: chan_sorted_def listen_at_def split: option.splits)

lemma watch_iff:
  assumes "\<not> gone src r"
  shows "sg_watch s src t = Some r \<longleftrightarrow>
     sg_auto_resume s
     \<and> (\<exists>i. settles_first (sg_bad s) (sg_resume_delay s) (listen_at src t) i
           \<and> r = fst (listen_at src t ! i) + delay_of (sg_resume_delay s))"
proof (cases "listen_at src t")
  case Nil
  have "map_option (max t) (so_closed src) \<noteq> Some r"
    using assms by (auto simp: not_gone_iff)
  then show ?thesis
    by (simp add: Nil sg_watch_def await_good_stable_def settles_first_Nil)
next
  case (Cons p rest)
  obtain u v where "p = (u, v)" by (cases p)
  then show ?thesis
    using good_loop_iff [of "so_closed src" r "sg_bad s" "sg_resume_delay s" u v rest] assms
    by (auto simp: Cons sg_watch_def await_good_stable_def not_gone_iff)
qed

text \<open>C19. A suspension lifts when the signal has settled, neither sooner nor later. The wait reads
  the values it receives in order. At a time \<open>r\<close> at which the producers are still there, it ends at
  \<open>r\<close> if and only if the suspender resumes by itself and \<open>r\<close> is the time of the first settling value plus
  the resume delay. Without a delay the first settling value is the FIRST GOOD value received; with a delay
  it is the first good value after which nothing at all, good or bad, is received before the delay has
  passed (a flicker back to bad, or any further update, restarts it). Every value before it
  is bad or was followed too soon, and everything received after it comes at \<open>r\<close> or later.
  Posts come in the order of their ticks, and several may share one.\<close>

theorem resumes_only_when_settled:
  assumes "chan_sorted (so_posts src)" "\<not> gone src r"
  shows "sg_watch s src t = Some r \<longleftrightarrow>
     sg_auto_resume s
     \<and> (\<exists>i<length (listen_at src t).
          r = fst (listen_at src t ! i) + (case sg_resume_delay s of None \<Rightarrow> 0 | Some d \<Rightarrow> d)
          \<and> \<not> sg_bad s (snd (listen_at src t ! i))
          \<and> (sg_resume_delay s \<noteq> None \<longrightarrow>
               (\<forall>j<length (listen_at src t). i < j \<longrightarrow> r \<le> fst (listen_at src t ! j)))
          \<and> (\<forall>j<i. sg_bad s (snd (listen_at src t ! j))
               \<or> (\<exists>d. sg_resume_delay s = Some d
                      \<and> fst (listen_at src t ! Suc j) < fst (listen_at src t ! j) + d)))"
proof -
  let ?chan = "listen_at src t" and ?d = "sg_resume_delay s" and ?bad = "sg_bad s"
  have later: "fst (?chan ! Suc i) \<le> fst (?chan ! j)" if "i < j" "j < length ?chan" for i j
    using sorted_listen [OF assms(1), of t] sorted_nth_mono [of "map fst ?chan" "Suc i" j] that
    by (simp add: chan_sorted_def)
  have at: "settles ?bad ?d ?chan i \<longleftrightarrow> i < length ?chan \<and> \<not> ?bad (snd (?chan ! i))
      \<and> (?d \<noteq> None \<longrightarrow> (\<forall>j<length ?chan. i < j \<longrightarrow> fst (?chan ! i) + delay_of ?d \<le> fst (?chan ! j)))" for i
    using later [of i] by (auto simp: settles_def intro: order_trans)
  have earlier: "\<not> settles ?bad ?d ?chan j \<longleftrightarrow>
      ?bad (snd (?chan ! j)) \<or> (\<exists>d. ?d = Some d \<and> fst (?chan ! Suc j) < fst (?chan ! j) + d)"
    if "j < i" "i < length ?chan" for i j
    using that by (auto simp: settles_def delay_of_def)
  have first: "settles_first ?bad ?d ?chan i \<longleftrightarrow> settles ?bad ?d ?chan i
      \<and> (\<forall>j<i. ?bad (snd (?chan ! j)) \<or> (\<exists>d. ?d = Some d \<and> fst (?chan ! Suc j) < fst (?chan ! j) + d))" for i
    using earlier [of _ i] unfolding settles_first_def at by blast
  show ?thesis
    unfolding watch_iff [OF assms(2)] first at by (auto simp: delay_of_def)
qed

theorem resumes_only_when_settled_witness:
  "sg_watch (with_resume_delay 5 (suspend_bool_high ''shutter'') :: (bool, unit) signal_suspender)
     \<lparr> so_posts = [(1, True), (3, False), (5, True), (5, False)], so_closed = None \<rparr> 1 = Some 10"
proof -
  let ?s = "with_resume_delay 5 (suspend_bool_high ''shutter'') :: (bool, unit) signal_suspender"
  let ?src = "\<lparr> so_posts = [(1, True), (3, False), (5, True), (5, False)], so_closed = None \<rparr>"
  have "chan_sorted (so_posts ?src)" "\<not> gone ?src 10" by (simp_all add: chan_sorted_def gone_def)
  note iff = resumes_only_when_settled [OF this, of ?s 1]
  have "listen_at ?src 1 = [(1, True), (3, False), (5, True), (5, False)]"
    by (simp add: listen_at_def latest_at_def gone_def)
  then show ?thesis
    unfolding iff
    by (intro conjI exI [of _ 3])
      (auto simp: with_resume_delay_def suspend_bool_high_def signal_suspender_new_def
        less_Suc_eq numeral_3_eq_3)
qed

section \<open>Tripping\<close>

lemma await_bad_SomeD:
  assumes "await_bad bad chan = Some t"
  shows "\<exists>v. (t, v) \<in> set chan \<and> bad v"
  using assms by (induction chan rule: await_bad.induct [of _ bad]) (auto split: if_splits)

lemma await_bad_first:
  assumes "(u, v) \<in> set chan" "bad v" "chan_sorted chan"
  shows "\<exists>t. await_bad bad chan = Some t \<and> t \<le> u"
  using assms by (induction chan) (fastforce simp: chan_sorted_def)+

text \<open>A wait that ends while the producers are there ends no sooner than the first value it received,
  and not with that value when it is bad.\<close>

lemma good_loop_time:
  assumes "good_loop bad d closed now v rest = Some r" "chan_sorted ((now, v) # rest)"
    and "\<forall>c. closed = Some c \<longrightarrow> r < c"
  shows "now \<le> r \<and> (bad v \<longrightarrow> (\<exists>(t, _) \<in> set rest. t \<le> r))"
proof -
  let ?chan = "(now, v) # rest"
  obtain i where i: "settles bad d ?chan i" "r = fst (?chan ! i) + delay_of d"
    using assms(1) unfolding good_loop_iff [OF assms(3)] settles_first_def by blast
  have len: "i < length ?chan" and good: "\<not> bad (snd (?chan ! i))"
    using i(1) by (simp_all add: settles_def)
  have "map fst ?chan ! 0 \<le> map fst ?chan ! i"
    using assms(2) len unfolding chan_sorted_def by (intro sorted_nth_mono) auto
  then have "now \<le> fst (?chan ! i)" using len by (simp only: nth_map length_Cons) simp
  moreover have "\<exists>(t, _) \<in> set rest. t \<le> r" if bad: "bad v"
  proof -
    obtain i' where "i = Suc i'" using good bad by (cases i) auto
    then show ?thesis using len i(2) by (intro bexI [of _ "rest ! i'"]) auto
  qed
  ultimately show ?thesis using i(2) by simp
qed

lemma listen_mem:
  "(u, v) \<in> set (listen_at src t) \<Longrightarrow> u = t \<and> latest_at src t = Some v \<or> t < u \<and> (u, v) \<in> set (so_posts src)"
  by (auto simp: listen_at_def split: if_splits option.splits)

lemma listen_later:
  "(u, v) \<in> set (so_posts src) \<Longrightarrow> t < u \<Longrightarrow> \<not> gone src u \<Longrightarrow> (u, v) \<in> set (listen_at src t)"
  by (auto simp: listen_at_def gone_def split: option.splits)

text \<open>When the watch that follows a trip ends, the source is gone or a value posted since the watcher armed
  has arrived.\<close>

lemma watch_progress:
  assumes trip: "sg_trip s src t = Some bad_at" and watch: "sg_watch s src bad_at = Some r"
    and sorted: "chan_sorted (so_posts src)" and alive: "\<not> gone src r"
  shows "t \<le> bad_at \<and> bad_at \<le> r \<and> (\<exists>(u, _) \<in> set (so_posts src). t < u \<and> u \<le> r)"
proof -
  obtain v where v: "(bad_at, v) \<in> set (listen_at src t)" "sg_bad s v"
    using await_bad_SomeD trip unfolding sg_trip_def by fast
  obtain u w rest where chan: "listen_at src bad_at = (u, w) # rest"
    using watch alive unfolding watch_iff [OF alive]
    by (cases "listen_at src bad_at") (auto simp: settles_first_Nil)
  have u: "bad_at \<le> u" using listen_mem [of u w src bad_at] chan by auto
  have "good_loop (sg_bad s) (sg_resume_delay s) (so_closed src) u w rest = Some r"
    using watch chan by (simp add: sg_watch_def await_good_stable_def split: if_splits)
  note time = good_loop_time [OF this]
  have time: "u \<le> r \<and> (sg_bad s w \<longrightarrow> (\<exists>(x, _) \<in> set rest. x \<le> r))"
    using time sorted_listen [OF sorted, of bad_at] chan alive by (simp add: not_gone_iff)
  show ?thesis
  proof (cases "t < bad_at")
    case True
    then have "(bad_at, v) \<in> set (so_posts src)" using listen_mem [OF v(1)] by auto
    then show ?thesis using True u time by force
  next
    case False
    then have now: "t = bad_at" "latest_at src bad_at = Some v" using listen_mem [OF v(1)] by auto
    then have w: "w = v" "rest = filter (\<lambda>(x, _). bad_at < x \<and> \<not> gone src x) (so_posts src)"
      using chan by (auto simp: listen_at_def split: if_splits)
    then obtain x y where "(x, y) \<in> set rest" "x \<le> r" using time v(2) by auto
    then show ?thesis using w now u time by force
  qed
qed

definition covered :: "(nat \<times> nat option) list \<Rightarrow> nat \<Rightarrow> bool" where
  "covered eps u \<longleftrightarrow> (\<exists>(bad_at, good_at) \<in> set eps. bad_at \<le> u \<and> (case good_at of None \<Rightarrow> True | Some r \<Rightarrow> u \<le> r))"

lemma covered_Cons:
  "covered ((b, g) # eps) u \<longleftrightarrow> b \<le> u \<and> (case g of None \<Rightarrow> True | Some r \<Rightarrow> u \<le> r) \<or> covered eps u"
  by (simp add: covered_def)

lemma posts_after_less:
  fixes posts :: "(nat \<times> 'a) list"
  assumes "(x, w) \<in> set posts" "t < x" "x \<le> r"
  shows "length (filter (\<lambda>(x, _). r < x) posts) < length (filter (\<lambda>(x, _). t < x) posts)"
proof -
  obtain ps qs where split: "posts = ps @ (x, w) # qs" using assms(1) by (meson split_list)
  have "length (filter (\<lambda>(x, _). r < x) ys) \<le> length (filter (\<lambda>(x, _). t < x) ys)" for ys :: "(nat \<times> 'a) list"
    using assms by (induction ys) auto
  from this [of ps] this [of qs] show ?thesis using assms split by simp
qed

lemma episodes_cover:
  assumes "chan_sorted (so_posts src)" "(u, v) \<in> set (so_posts src)" "sg_bad s v" "\<not> gone src u" "t < u"
    and "length (filter (\<lambda>(x, _). t < x) (so_posts src)) \<le> n"
  shows "covered (episodes 0 s src n t) u"
  using assms(5,6)
proof (induction n arbitrary: t)
  case 0
  then have "filter (\<lambda>(x, _). t < x) (so_posts src) = []" by simp
  then show ?case using assms(2) 0(1) by (auto simp: filter_empty_conv)
next
  case (Suc n)
  obtain bad_at where trip: "sg_trip s src t = Some bad_at" and le: "bad_at \<le> u"
    using await_bad_first [of u v "listen_at src t" "sg_bad s"] listen_later [OF assms(2) Suc.prems(1) assms(4)]
      assms(3) sorted_listen [OF assms(1), of t] unfolding sg_trip_def by blast
  show ?case
  proof (cases "sg_watch s src bad_at")
    case None
    then show ?thesis using trip le by (simp add: covered_Cons)
  next
    case (Some r)
    show ?thesis
    proof (cases "u \<le> r")
      case True
      then show ?thesis using trip le Some by (simp add: covered_Cons)
    next
      case False
      then have alive: "\<not> gone src r" using assms(4) by (auto simp: gone_def split: option.splits)
      obtain x w where x: "(x, w) \<in> set (so_posts src)" "t < x" "x \<le> r"
        using watch_progress [OF trip Some assms(1) alive] by auto
      have "covered (episodes 0 s src n r) u"
        using Suc.IH [of r] Suc.prems(2) False posts_after_less [OF x] by simp
      then show ?thesis using trip Some by (simp add: covered_Cons)
    qed
  qed
qed

lemma episodes_watch: "(bad_at, good_at) \<in> set (episodes lag s src n t) \<Longrightarrow> good_at = sg_watch s src bad_at"
  by (induction n arbitrary: t) (auto split: option.splits)

text \<open>C18. Every bad value suspends: for a suspender that resumes by itself, with a watcher that re-arms at
  once, a bad value posted after the watcher armed and while the producers are there lies inside
  an episode: the suspender tripped no later than it, and the watch that this trip started has not ended
  before it (it ends later, at the same tick, or never). This holds however short the glitch, also
  when the recovery has the very same tick as the bad value, and the watcher needs at most one round per
  post to get there. (A suspender without \<open>allow_resume\<close> is excluded: it trips once in its life,
  see \<open>one_shot_goes_blind\<close>; a watcher that re-arms late misses glitches, see
  \<open>late_watcher_misses_glitch\<close>.)\<close>

theorem every_bad_value_suspends:
  assumes "chan_sorted (so_posts src)" "(u, v) \<in> set (so_posts src)" "sg_bad s v" "\<not> gone src u" "t < u"
    and "sg_auto_resume s"
  shows "\<exists>bad_at good_at. (bad_at, good_at) \<in> set (episodes 0 s src (length (so_posts src)) t)
           \<and> bad_at \<le> u \<and> good_at = sg_watch s src bad_at
           \<and> (case good_at of None \<Rightarrow> True | Some r \<Rightarrow> u \<le> r)"
proof -
  have "covered (episodes 0 s src (length (so_posts src)) t) u"
    using episodes_cover [OF assms(1-5), of "length (so_posts src)"] by simp
  then show ?thesis using episodes_watch unfolding covered_def by fast
qed

theorem every_bad_value_suspends_witness:
  "\<exists>bad_at good_at. (bad_at, good_at) \<in> set (episodes 0 (suspend_bool_low ''beam'' :: (bool, unit) signal_suspender)
       \<lparr> so_posts = [(1, True), (4, False), (4, True), (9, False)], so_closed = None \<rparr> 4 0)
     \<and> bad_at \<le> 4 \<and> (case good_at of None \<Rightarrow> True | Some r \<Rightarrow> 4 \<le> r)"
proof -
  let ?s = "suspend_bool_low ''beam'' :: (bool, unit) signal_suspender"
  let ?src = "\<lparr> so_posts = [(1, True), (4, False), (4, True), (9, False)], so_closed = None \<rparr>"
  have "chan_sorted (so_posts ?src)" "(4, False) \<in> set (so_posts ?src)" "sg_bad ?s False" "\<not> gone ?src 4" "0 < (4::nat)"
    "sg_auto_resume ?s"
    by (simp_all add: chan_sorted_def gone_def suspend_bool_low_def signal_suspender_new_def)
  note every_bad_value_suspends [OF this]
  moreover have "length (so_posts ?src) = 4" by simp
  ultimately show ?thesis by (simp only:) blast
qed

text \<open>The same is not true of a watcher that is polled late: between the end of a suspension and
  re-arming, the queue the wait was reading is dropped and the next one starts with the latest value, so a
  bad value that is good again by then is never judged, although the header of the module promises that
  every posted value is.\<close>

theorem late_watcher_misses_glitch:
  "episodes 3 (suspend_bool_high ''shutter'' :: (bool, unit) signal_suspender)
     \<lparr> so_posts = [(1, True), (5, False), (6, True), (7, False)], so_closed = None \<rparr> 5 0 = [(1, Some 5)]"
  by (simp add: numeral_nat sg_trip_def sg_watch_def suspend_bool_high_def signal_suspender_new_def
      await_good_stable_def listen_at_def latest_at_def gone_def good_loop.simps)

text \<open>A suspender without \<open>allow_resume\<close> trips once in its life and then neither suspends
  nor gates: the first deviation ends the watcher's loop, and as soon as the value is back at
  the expected one the suspender counts as clear at plan start, although it is
  documented to stay tripped until removed.\<close>

theorem one_shot_goes_blind:
  "length (episodes lag (suspend_when_changed name expected :: ('v, 'p) signal_suspender) src n t) \<le> 1
   \<and> (latest_at src now = Some expected \<longrightarrow>
        sg_tripped (suspend_when_changed name expected :: ('v, 'p) signal_suspender) src now = None)"
proof -
  let ?s = "suspend_when_changed name expected :: ('v, 'p) signal_suspender"
  have "\<not> sg_auto_resume ?s" by (simp add: suspend_when_changed_def)
  then have "sg_watch ?s src b = None" for b by (simp add: sg_watch_def)
  then have "length (episodes lag ?s src n t) \<le> 1" by (cases n) (simp_all split: option.splits)
  then show ?thesis by (simp add: sg_tripped_def suspend_when_changed_def signal_suspender_new_def)
qed

theorem one_shot_goes_blind_witness:
  "sg_tripped (suspend_when_changed ''mode'' (0::int) :: (int, unit) signal_suspender)
     \<lparr> so_posts = [(1, 5), (2, 0), (10, 5)], so_closed = None \<rparr> 3 = None"
proof -
  let ?src = "\<lparr> so_posts = [(1, 5), (2, 0), (10, 5)], so_closed = None \<rparr> :: int source"
  have "latest_at ?src 3 = Some 0" by (simp add: latest_at_def)
  then show ?thesis using one_shot_goes_blind [of 0 "''mode''" "0::int" ?src 4 0 3] by fast
qed

text \<open>The bad region of a band contains no NaN: a suspender on a value outside a band takes a
  NaN for good, although good is documented as strictly inside the band.\<close>

theorem nan_is_never_bad:
  assumes "f64_is_nan v"
  shows "\<not> sg_bad (suspend_outside_band fmt name lo hi) v \<and> \<not> sg_bad (suspend_threshold fmt name limit direction) v"
  using assms
  by (simp add: suspend_outside_band_def suspend_threshold_def signal_suspender_new_def f64_le_def f64_lt_def
      split: threshold_direction.splits)

theorem nan_is_never_bad_witness:
  "\<not> sg_bad (suspend_outside_band (\<lambda>_. []) ''temp'' 0 1 :: (f64, unit) signal_suspender) 0x7FF8000000000000"
  by (rule conjunct1 [OF nan_is_never_bad]) (simp add: f64_is_nan_def)

end
