(* ===== verification/Preprocessors.thy ===== *)
theory Preprocessors
  imports Engine
begin

text \<open>
  The plan wrappers (\<open>plans/preprocessors.rs\<close>). A plan written with \<open>stream!\<close> is a state machine that is
  polled with a view of the engine and yields an item; \<open>unfold_plan\<close> makes a plan of its step function. A \<open>stream!\<close>
  body that yields some messages and then forwards other plans is \<open>pchain\<close> of them. The
  closures of the source that only compute are functions; the device query of the relative wrappers (\<open>locate_dyn\<close>) is
  the argument \<open>locate\<close>, and the sink a contingency region allocates is its argument \<open>sink\<close>, fresh for every use.
  \<open>plan_mutator\<close> is not modelled: a replacement plan may be empty, so one poll of it may
  never return.
\<close>

section \<open>Plans as state machines\<close>

primcorec unfold_plan :: "('s \<Rightarrow> view \<Rightarrow> (PlanItem \<times> sinks \<times> 's) option) \<Rightarrow> 's \<Rightarrow> plan" where
  "plan_next (unfold_plan step s) = map_option (map_prod id (map_prod id (unfold_plan step))) \<circ> step s"

definition empty_plan :: plan where
  "empty_plan = PlanOf (\<lambda>_. None)"

fun yield_step :: "Msg list \<Rightarrow> view \<Rightarrow> (PlanItem \<times> sinks \<times> Msg list) option" where
  "yield_step [] v = None"
| "yield_step (m # ms) v = Some (Bare m, vw_sinks v, ms)"

definition yield_all :: "Msg list \<Rightarrow> plan" where
  "yield_all = unfold_plan yield_step"

fun pchain_step :: "plan list \<Rightarrow> view \<Rightarrow> (PlanItem \<times> sinks \<times> plan list) option" where
  "pchain_step [] v = None"
| "pchain_step (p # ps) v =
     (case plan_next p v of
        Some (item, snks, p') \<Rightarrow> Some (item, snks, p' # ps)
      | None \<Rightarrow> pchain_step ps v)"

definition pchain :: "plan list \<Rightarrow> plan" where
  "pchain = unfold_plan pchain_step"

definition msg_mutator_step :: "(Msg \<Rightarrow> Msg) \<Rightarrow> plan \<Rightarrow> view \<Rightarrow> (PlanItem \<times> sinks \<times> plan) option" where
  "msg_mutator_step f p v =
     (case plan_next p v of
        Some (item, snks, p') \<Rightarrow> Some (map_msg f item, snks, p')
      | None \<Rightarrow> None)"

definition msg_mutator :: "plan \<Rightarrow> (Msg \<Rightarrow> Msg) \<Rightarrow> plan" where
  "msg_mutator inner f = unfold_plan (msg_mutator_step f) inner"

section \<open>Contingency regions\<close>

text \<open>The region around a state machine \<open>istep\<close>; \<open>final_plan\<close> may look at the state it ended in.\<close>

datatype 's region = RegionPush 's | RegionTry bool 's | RegionRest "plan list"

definition region_tail ::
  "(Thrown \<Rightarrow> plan) option \<Rightarrow> plan option \<Rightarrow> plan option \<Rightarrow> bool \<Rightarrow> Thrown option \<Rightarrow> plan list" where
  "region_tail except_plan else_plan final_plan auto_raise thrown =
     (let (recovery, reraise) =
            (case thrown of
               Some t \<Rightarrow> (case except_plan of
                             Some build \<Rightarrow> ([build t], if auto_raise then Some t else None)
                           | None \<Rightarrow> ([], Some t))
             | None \<Rightarrow> (case else_plan of Some ep \<Rightarrow> [ep] | None \<Rightarrow> [], None))
      in [yield_all [PopContingency]] @ recovery
         @ (case final_plan of Some fp \<Rightarrow> [fp] | None \<Rightarrow> [])
         @ (case reraise of Some t \<Rightarrow> [yield_all [Raise t]] | None \<Rightarrow> []))"

fun region_step ::
  "sink_id \<Rightarrow> ('s \<Rightarrow> view \<Rightarrow> (PlanItem \<times> sinks \<times> 's) option) \<Rightarrow> ('s \<Rightarrow> Thrown option \<Rightarrow> plan list)
   \<Rightarrow> 's region \<Rightarrow> view \<Rightarrow> (PlanItem \<times> sinks \<times> 's region) option" where
  "region_step sink istep tail (RegionPush s) v =
     Some (Bare (PushContingency sink), vw_sinks v, RegionTry False s)"
| "region_step sink istep tail (RegionTry check s) v =
     (case (if check then hget (vw_sinks v) sink else None) of
        Some t \<Rightarrow>
          map_option (map_prod id (map_prod id RegionRest))
            (pchain_step (tail s (Some t)) (v\<lparr> vw_sinks := hdel sink (vw_sinks v) \<rparr>))
      | None \<Rightarrow>
          (case istep s v of
             Some (item, snks, s') \<Rightarrow> Some (item, snks, RegionTry True s')
           | None \<Rightarrow> map_option (map_prod id (map_prod id RegionRest)) (pchain_step (tail s None) v)))"
| "region_step sink istep tail (RegionRest ps) v =
     map_option (map_prod id (map_prod id RegionRest)) (pchain_step ps v)"

definition contingency_wrapper ::
  "sink_id \<Rightarrow> plan \<Rightarrow> (Thrown \<Rightarrow> plan) option \<Rightarrow> plan option \<Rightarrow> plan option \<Rightarrow> bool \<Rightarrow> plan" where
  "contingency_wrapper sink inner except_plan else_plan final_plan auto_raise =
     unfold_plan (region_step sink plan_next (\<lambda>_. region_tail except_plan else_plan final_plan auto_raise))
       (RegionPush inner)"

definition finalize_wrapper :: "sink_id \<Rightarrow> plan \<Rightarrow> plan \<Rightarrow> plan" where
  "finalize_wrapper sink inner final_plan = contingency_wrapper sink inner None None (Some final_plan) True"

text \<open>\<open>finalize_wrapper\<close> around a state machine whose final plan reads the state it shares with it.\<close>

definition finalize_with ::
  "sink_id \<Rightarrow> ('s \<Rightarrow> view \<Rightarrow> (PlanItem \<times> sinks \<times> 's) option) \<Rightarrow> 's \<Rightarrow> ('s \<Rightarrow> plan) \<Rightarrow> plan" where
  "finalize_with sink istep s final_plan =
     unfold_plan (region_step sink istep (\<lambda>s'. region_tail None None (Some (final_plan s')) True)) (RegionPush s)"

text \<open>\<open>to_string\<close> of an error is the argument \<open>text\<close>.\<close>

definition run_wrapper_except :: "(BsrsError \<Rightarrow> string) \<Rightarrow> Thrown \<Rightarrow> plan" where
  "run_wrapper_except text thrown =
     (case thrown of
        ThrownError e \<Rightarrow> yield_all [CloseRun ''fail'' (Some (text e))]
      | ThrownInterrupt kind reason \<Rightarrow> yield_all [CloseRun (interrupt_exit_status kind) reason])"

definition run_wrapper :: "(BsrsError \<Rightarrow> string) \<Rightarrow> sink_id \<Rightarrow> plan \<Rightarrow> RunMetadata \<Rightarrow> plan" where
  "run_wrapper text sink inner md =
     pchain [yield_all [OpenRun md],
             contingency_wrapper sink inner (Some (run_wrapper_except text))
               (Some (yield_all [CloseRun ''success'' None])) None True]"

definition rewindable_wrapper :: "sink_id \<Rightarrow> plan \<Rightarrow> bool \<Rightarrow> plan" where
  "rewindable_wrapper sink inner on =
     pchain [yield_all [Rewindable on], finalize_wrapper sink inner (yield_all [Rewindable True])]"

definition stage_wrapper :: "sink_id \<Rightarrow> plan \<Rightarrow> device list \<Rightarrow> plan" where
  "stage_wrapper sink inner devices =
     finalize_wrapper sink (pchain [yield_all (map Stage devices), inner]) (yield_all (map Unstage (rev devices)))"

definition suspend_wrapper :: "u64 \<Rightarrow> sink_id \<Rightarrow> plan \<Rightarrow> suspender_id \<Rightarrow> plan" where
  "suspend_wrapper i sink inner suspender =
     finalize_wrapper sink (pchain [yield_all [InstallSuspender i (Some suspender)], inner])
       (yield_all [RemoveSuspender i])"

definition subs_wrapper :: "plan \<Rightarrow> 'subs \<Rightarrow> plan" where
  "subs_wrapper inner subs = inner"

definition configure_count_time_wrapper :: "plan \<Rightarrow> json \<Rightarrow> device list \<Rightarrow> plan" where
  "configure_count_time_wrapper inner time detectors =
     pchain [yield_all (map (\<lambda>d. Configure d [(''count_time'', time)]) detectors), inner]"

section \<open>Rewriting messages\<close>

definition or_insert_all :: "(string, json) hmap \<Rightarrow> (string, json) hmap \<Rightarrow> (string, json) hmap" where
  "or_insert_all new old = fold (\<lambda>(k, v) m. if hmem k m then m else hput k v m) new old"

definition inject_md :: "(string, json) hmap \<Rightarrow> Msg \<Rightarrow> Msg" where
  "inject_md extra m =
     (case m of OpenRun meta \<Rightarrow> OpenRun (meta\<lparr> md_extra := or_insert_all extra (md_extra meta) \<rparr>) | _ \<Rightarrow> m)"

definition inject_md_wrapper :: "plan \<Rightarrow> (string, json) hmap \<Rightarrow> plan" where
  "inject_md_wrapper inner extra = msg_mutator inner (inject_md extra)"

definition set_run_key_wrapper :: "plan \<Rightarrow> string \<Rightarrow> plan" where
  "set_run_key_wrapper inner run_key = msg_mutator inner (inject_md [(''run_key'', JString run_key)])"

text \<open>\<open>print_summary_wrapper\<close> prints; the messages pass through.\<close>

definition print_summary_wrapper :: "plan \<Rightarrow> plan" where
  "print_summary_wrapper inner = msg_mutator inner (\<lambda>m. m)"

definition is_open_run :: "Msg \<Rightarrow> bool" where
  "is_open_run m = (case m of OpenRun _ \<Rightarrow> True | _ \<Rightarrow> False)"

definition is_close_run :: "Msg \<Rightarrow> bool" where
  "is_close_run m = (case m of CloseRun _ _ \<Rightarrow> True | _ \<Rightarrow> False)"

text \<open>\<open>stub_wrapper\<close>: a forbidden message becomes a failure and ends the plan.\<close>

definition stub_step :: "plan option \<Rightarrow> view \<Rightarrow> (PlanItem \<times> sinks \<times> plan option) option" where
  "stub_step st v =
     (case st of
        None \<Rightarrow> None
      | Some p \<Rightarrow>
          (case plan_next p v of
             None \<Rightarrow> None
           | Some (item, snks, p') \<Rightarrow>
               if is_open_run (item_msg item) then
                 Some (Bare (Fail ''stub_wrapper: inner plan must not emit OpenRun''), snks, None)
               else if is_close_run (item_msg item) then
                 Some (Bare (Fail ''stub_wrapper: inner plan must not emit CloseRun''), snks, None)
               else Some (item, snks, Some p')))"

definition stub_wrapper :: "plan \<Rightarrow> plan" where
  "stub_wrapper inner = unfold_plan stub_step (Some inner)"

section \<open>During a run\<close>

fun during_step ::
  "Msg list \<Rightarrow> Msg list \<Rightarrow> PlanItem list \<times> plan \<Rightarrow> view \<Rightarrow> (PlanItem \<times> sinks \<times> PlanItem list \<times> plan) option" where
  "during_step after_open before_close (item # items, p) v = Some (item, vw_sinks v, items, p)"
| "during_step after_open before_close ([], p) v =
     (case plan_next p v of
        None \<Rightarrow> None
      | Some (item, snks, p') \<Rightarrow>
          if is_open_run (item_msg item) then Some (item, snks, map Bare after_open, p')
          else if is_close_run (item_msg item) then
            (case map Bare before_close @ [item] of
               first # items \<Rightarrow> Some (first, snks, items, p')
             | [] \<Rightarrow> None)
          else Some (item, snks, [], p'))"

definition during_run_wrapper :: "plan \<Rightarrow> Msg list \<Rightarrow> Msg list \<Rightarrow> plan" where
  "during_run_wrapper inner after_open before_close =
     unfold_plan (during_step after_open before_close) ([], inner)"

definition monitor_during_wrapper :: "plan \<Rightarrow> device list \<Rightarrow> plan" where
  "monitor_during_wrapper inner signals =
     during_run_wrapper inner
       (map (\<lambda>s. Monitor s (Some (dv_name s @ ''_monitor''))) signals)
       (map Unmonitor (rev signals))"

definition baseline_block :: "device list \<Rightarrow> string \<Rightarrow> Msg list" where
  "baseline_block devices name = [Create name] @ map Read devices @ [Save]"

definition baseline_wrapper :: "plan \<Rightarrow> device list \<Rightarrow> string \<Rightarrow> plan" where
  "baseline_wrapper inner devices name =
     during_run_wrapper inner (baseline_block devices name) (baseline_block devices name)"

definition fly_during_wrapper :: "plan \<Rightarrow> (device \<times> device) list \<Rightarrow> plan" where
  "fly_during_wrapper inner flyers =
     during_run_wrapper inner
       (map (\<lambda>(f, _). Kickoff f (Some ''fly_kick'')) flyers
         @ (if flyers \<noteq> [] then [Wait ''fly_kick'' True None] else []))
       (map (\<lambda>(f, _). Complete f (Some ''fly_done'')) flyers
         @ (if flyers \<noteq> [] then [Wait ''fly_done'' True None] else [])
         @ map (\<lambda>(_, c). Collect c None) flyers)"

record SupplementalData =
  sd_baseline :: "device list"
  sd_monitors :: "device list"
  sd_flyers :: "(device \<times> device) list"

definition supplemental_new :: SupplementalData where
  "supplemental_new = \<lparr> sd_baseline = [], sd_monitors = [], sd_flyers = [] \<rparr>"

definition add_baseline :: "device \<Rightarrow> SupplementalData \<Rightarrow> SupplementalData" where
  "add_baseline d sd = sd\<lparr> sd_baseline := sd_baseline sd @ [d] \<rparr>"

definition add_monitor :: "device \<Rightarrow> SupplementalData \<Rightarrow> SupplementalData" where
  "add_monitor d sd = sd\<lparr> sd_monitors := sd_monitors sd @ [d] \<rparr>"

definition add_flyer :: "device \<Rightarrow> device \<Rightarrow> SupplementalData \<Rightarrow> SupplementalData" where
  "add_flyer f c sd = sd\<lparr> sd_flyers := sd_flyers sd @ [(f, c)] \<rparr>"

definition clear_supplemental :: "SupplementalData \<Rightarrow> SupplementalData" where
  "clear_supplemental sd = sd\<lparr> sd_baseline := [], sd_monitors := [], sd_flyers := [] \<rparr>"

definition apply_supplemental :: "SupplementalData \<Rightarrow> plan \<Rightarrow> plan" where
  "apply_supplemental sd p =
     (let p1 = (if sd_flyers sd = [] then p else fly_during_wrapper p (sd_flyers sd));
          p2 = (if sd_monitors sd = [] then p1 else monitor_during_wrapper p1 (sd_monitors sd))
      in if sd_baseline sd = [] then p2 else baseline_wrapper p2 (sd_baseline sd) ''baseline'')"

section \<open>Moves\<close>

text \<open>\<open>collect()\<close> into a map by name: of two motors of one name the later one is kept.\<close>

definition by_name :: "device list \<Rightarrow> (string, device) hmap" where
  "by_name devices = hextend [] (map (\<lambda>d. (dv_name d, d)) devices)"

definition set_target :: "Msg \<Rightarrow> device option" where
  "set_target m = (case m of Set obj _ _ \<Rightarrow> Some obj | _ \<Rightarrow> None)"

text \<open>\<open>fadd\<close> is the addition of doubles. A motor that cannot be located has the base 0.\<close>

definition relative_set_step ::
  "(f64 \<Rightarrow> f64 \<Rightarrow> f64) \<Rightarrow> (view \<Rightarrow> device \<Rightarrow> f64 option) \<Rightarrow> device list
   \<Rightarrow> (string, f64) hmap \<times> plan \<Rightarrow> view \<Rightarrow> (PlanItem \<times> sinks \<times> (string, f64) hmap \<times> plan) option" where
  "relative_set_step fadd locate motors st v =
     (let (bases, p) = st in
      case plan_next p v of
        None \<Rightarrow> None
      | Some (item, snks, p') \<Rightarrow>
          (case set_target (item_msg item) of
             None \<Rightarrow> Some (item, snks, bases, p')
           | Some obj \<Rightarrow>
               (case hget (by_name motors) (dv_name obj) of
                  None \<Rightarrow> Some (item, snks, bases, p')
                | Some motor \<Rightarrow>
                    (let base = (case hget bases (dv_name obj) of
                                   Some b \<Rightarrow> b
                                 | None \<Rightarrow> (case locate v motor of Some b \<Rightarrow> b | None \<Rightarrow> 0))
                     in Some (map_msg (\<lambda>m. case m of Set d x g \<Rightarrow> Set d (fadd x base) g | _ \<Rightarrow> m) item,
                              snks, hput (dv_name obj) base bases, p')))))"

definition relative_set_wrapper ::
  "(f64 \<Rightarrow> f64 \<Rightarrow> f64) \<Rightarrow> (view \<Rightarrow> device \<Rightarrow> f64 option) \<Rightarrow> plan \<Rightarrow> device list \<Rightarrow> plan" where
  "relative_set_wrapper fadd locate inner motors = unfold_plan (relative_set_step fadd locate motors) ([], inner)"

text \<open>The state of \<open>reset_positions_wrapper\<close>: the positions captured, the names seen, the plan.\<close>

definition reset_step ::
  "(view \<Rightarrow> device \<Rightarrow> f64 option) \<Rightarrow> device list
   \<Rightarrow> (device \<times> f64) list \<times> string list \<times> plan \<Rightarrow> view
   \<Rightarrow> (PlanItem \<times> sinks \<times> (device \<times> f64) list \<times> string list \<times> plan) option" where
  "reset_step locate motors st v =
     (let (initial, seen, p) = st in
      case plan_next p v of
        None \<Rightarrow> None
      | Some (item, snks, p') \<Rightarrow>
          (case set_target (item_msg item) of
             None \<Rightarrow> Some (item, snks, initial, seen, p')
           | Some obj \<Rightarrow>
               (case hget (by_name motors) (dv_name obj) of
                  None \<Rightarrow> Some (item, snks, initial, seen, p')
                | Some motor \<Rightarrow>
                    if dv_name obj \<in> set seen then Some (item, snks, initial, seen, p')
                    else Some (item, snks,
                           (case locate v motor of Some x \<Rightarrow> initial @ [(motor, x)] | None \<Rightarrow> initial),
                           dv_name obj # seen, p'))))"

definition reset_plan :: "(device \<times> f64) list \<Rightarrow> plan" where
  "reset_plan moved = yield_all (map (\<lambda>(d, x). Set d x (Some ''reset'')) moved @ [Wait ''reset'' True None])"

definition reset_positions_wrapper ::
  "sink_id \<Rightarrow> (view \<Rightarrow> device \<Rightarrow> f64 option) \<Rightarrow> plan \<Rightarrow> device list \<Rightarrow> plan" where
  "reset_positions_wrapper sink locate inner motors =
     finalize_with sink (reset_step locate motors) ([], [], inner) (\<lambda>(initial, _, _). reset_plan initial)"

text \<open>The state of \<open>lazily_stage_wrapper\<close>: an item held back while its device is staged, the
  devices staged, the names seen, the plan. The device counts as staged once the engine has taken the
  \<open>Stage\<close> message without an error, when the wrapper is polled again.\<close>

definition touched :: "Msg \<Rightarrow> string option" where
  "touched m =
     (case m of
        Read d \<Rightarrow> Some (dv_name d)
      | Set d _ _ \<Rightarrow> Some (dv_name d)
      | Trigger d _ \<Rightarrow> Some (dv_name d)
      | Configure d _ \<Rightarrow> Some (dv_name d)
      | _ \<Rightarrow> None)"

definition lazy_step ::
  "device list \<Rightarrow> (PlanItem \<times> device) option \<times> device list \<times> string list \<times> plan \<Rightarrow> view
   \<Rightarrow> (PlanItem \<times> sinks \<times> (PlanItem \<times> device) option \<times> device list \<times> string list \<times> plan) option" where
  "lazy_step devices st v =
     (let (held, staged, seen, p) = st in
      case held of
        Some (item, d) \<Rightarrow> Some (item, vw_sinks v, None, staged @ [d], seen, p)
      | None \<Rightarrow>
          (case plan_next p v of
             None \<Rightarrow> None
           | Some (item, snks, p') \<Rightarrow>
               (case touched (item_msg item) of
                  None \<Rightarrow> Some (item, snks, None, staged, seen, p')
                | Some name \<Rightarrow>
                    if name \<in> set seen then Some (item, snks, None, staged, seen, p')
                    else (case hget (by_name devices) name of
                            None \<Rightarrow> Some (item, snks, None, staged, name # seen, p')
                          | Some d \<Rightarrow> Some (Bare (Stage d), snks, Some (item, d), staged, name # seen, p')))))"

definition lazily_stage_wrapper :: "sink_id \<Rightarrow> plan \<Rightarrow> device list \<Rightarrow> plan" where
  "lazily_stage_wrapper sink inner devices =
     finalize_with sink (lazy_step devices) (None, [], [], inner)
       (\<lambda>(_, staged, _, _). yield_all (map Unstage (rev staged)))"

end
