(* ===== verification/Plan_Traces.thy ===== *)
theory Plan_Traces
  imports Preprocessors Scenario
begin

text \<open>
  What the plan wrappers of \<open>Preprocessors\<close> promise. A plan is judged by everything it may emit: \<open>emits\<close> ranges over
  all views, so a theorem about it holds whatever the engine, the devices and the other tasks do while the plan runs. The lemmas
  take a \<open>stream!\<close> body apart: \<open>yield_all\<close>, \<open>pchain\<close>, a contingency region and its tail.
\<close>

section \<open>What a plan may emit\<close>

text \<open>\<open>path step s its s'\<close>: polled with some views, the machine yields \<open>its\<close> and is in the state \<open>s'\<close>;
  \<open>emits p its fin\<close>: the plan yields \<open>its\<close>, and then it ends if \<open>fin\<close>. The views are arbitrary: whatever the engine,
  the devices and the other tasks do meanwhile is covered.\<close>

inductive path :: "('s \<Rightarrow> view \<Rightarrow> (PlanItem \<times> sinks \<times> 's) option) \<Rightarrow> 's \<Rightarrow> PlanItem list \<Rightarrow> 's \<Rightarrow> bool"
  for step where
  path_Nil: "path step s [] s"
| path_Cons: "step s v = Some (item, snks, s1) \<Longrightarrow> path step s1 its s2 \<Longrightarrow> path step s (item # its) s2"

inductive_simps path_Nil_iff [simp]: "path step s [] s'"
inductive_simps path_Cons_iff: "path step s (item # its) s'"

definition runs :: "('s \<Rightarrow> view \<Rightarrow> (PlanItem \<times> sinks \<times> 's) option) \<Rightarrow> 's \<Rightarrow> PlanItem list \<Rightarrow> bool \<Rightarrow> bool" where
  "runs step s its fin \<longleftrightarrow> (\<exists>s'. path step s its s' \<and> (fin \<longrightarrow> (\<exists>v. step s' v = None)))"

definition emits :: "plan \<Rightarrow> PlanItem list \<Rightarrow> bool \<Rightarrow> bool" where
  "emits p = runs plan_next p"

text \<open>An executable run with given views.\<close>

fun drive :: "('s \<Rightarrow> view \<Rightarrow> (PlanItem \<times> sinks \<times> 's) option) \<Rightarrow> 's \<Rightarrow> view list \<Rightarrow> PlanItem list \<times> bool" where
  "drive step s [] = ([], False)"
| "drive step s (v # vs) =
     (case step s v of
        None \<Rightarrow> ([], True)
      | Some (item, snks, s1) \<Rightarrow> (let (its, fin) = drive step s1 vs in (item # its, fin)))"

lemma path_append: "path step s its s1 \<Longrightarrow> path step s1 its' s2 \<Longrightarrow> path step s (its @ its') s2"
  by (induction rule: path.induct) (auto intro: path_Cons)

lemma path_append_iff: "path step s (its @ its') s2 \<longleftrightarrow> (\<exists>s1. path step s its s1 \<and> path step s1 its' s2)"
  by (induction its arbitrary: s) (simp_all add: path_Cons_iff, blast)

lemma runs_Nil: "runs step s [] fin \<longleftrightarrow> (fin \<longrightarrow> (\<exists>v. step s v = None))"
  by (simp add: runs_def)

lemma runs_Cons: "runs step s (item # its) fin \<longleftrightarrow> (\<exists>v snks s1. step s v = Some (item, snks, s1) \<and> runs step s1 its fin)"
  unfolding runs_def path_Cons_iff by blast

lemmas runs_simps = runs_Nil runs_Cons

lemma runs_drive: "drive step s vs = (its, fin) \<Longrightarrow> runs step s its fin"
proof (induction vs arbitrary: s its)
  case (Cons v vs)
  show ?case
  proof (cases "step s v")
    case None
    then show ?thesis using Cons.prems by (auto simp: runs_Nil)
  next
    case (Some r)
    obtain item snks s1 where r: "r = (item, snks, s1)" by (cases r)
    obtain its1 where its1: "drive step s1 vs = (its1, fin)" "its = item # its1"
      using Cons.prems Some r by (auto split: prod.splits)
    then show ?thesis using Cons.IH [OF its1(1)] Some r unfolding its1(2) runs_Cons by blast
  qed
qed (simp add: runs_Nil)

lemma path_unfold:
  "path plan_next (unfold_plan step s) its p' \<longleftrightarrow> (\<exists>s'. p' = unfold_plan step s' \<and> path step s its s')"
  by (induction its arbitrary: s) (fastforce simp: path_Cons_iff)+

lemma emits_unfold: "emits (unfold_plan step s) its fin \<longleftrightarrow> runs step s its fin"
proof -
  have "plan_next (unfold_plan step s') v = None \<longleftrightarrow> step s' v = None" for s' v by simp
  then show ?thesis unfolding emits_def runs_def path_unfold by (metis (no_types))
qed

lemma path_yield: "path yield_step ms its ms' \<longleftrightarrow> ms = map item_msg its @ ms' \<and> its = map Bare (map item_msg its)"
proof (induction its arbitrary: ms)
  case (Cons item its)
  then show ?case by (cases ms; cases item) (auto simp: path_Cons_iff)
qed auto

lemma yield_step_None: "yield_step ms v = None \<longleftrightarrow> ms = []"
  by (cases ms) simp_all

lemma emits_yield_all: "emits (yield_all ms) its True \<longleftrightarrow> its = map Bare ms"
  unfolding yield_all_def emits_unfold runs_def path_yield yield_step_None by (auto simp: comp_def)

lemma runs_pchain_Nil: "runs pchain_step [] its True \<longleftrightarrow> its = []"
  by (cases its) (simp_all add: runs_simps)

lemma pchain_step_None: "pchain_step (p # ps) v = None \<longleftrightarrow> plan_next p v = None \<and> pchain_step ps v = None"
  by (cases "plan_next p v") auto

lemma runs_pchain_Cons:
  "runs pchain_step (p # ps) its True \<Longrightarrow> \<exists>a b. its = a @ b \<and> emits p a True \<and> runs pchain_step ps b True"
proof (induction its arbitrary: p)
  case Nil
  then obtain v where "plan_next p v = None" "pchain_step ps v = None"
    unfolding runs_Nil pchain_step_None by blast
  then show ?case by (auto simp: emits_def runs_simps)
next
  case (Cons item its)
  then obtain v snks qs where v: "pchain_step (p # ps) v = Some (item, snks, qs)" "runs pchain_step qs its True"
    by (auto simp: runs_simps)
  show ?case
  proof (cases "plan_next p v")
    case None
    then have "runs pchain_step ps (item # its) True" using v by (auto simp: runs_simps)
    then show ?thesis using None by (intro exI [of _ "[]"] exI [of _ "item # its"]) (auto simp: emits_def runs_simps)
  next
    case (Some r)
    then obtain p' where p': "plan_next p v = Some (item, snks, p')" "qs = p' # ps" using v(1) by (cases r) auto
    from Cons.IH [of p'] v(2) p'(2) obtain a b
      where ab: "its = a @ b" "emits p' a True" "runs pchain_step ps b True" by auto
    then have "emits p (item # a) True" using p'(1) by (auto simp: emits_def runs_simps)
    then show ?thesis using ab by (intro exI [of _ "item # a"] exI [of _ b]) simp
  qed
qed

lemma emits_pchain: "emits (pchain ps) its fin = runs pchain_step ps its fin"
  by (simp add: pchain_def emits_unfold)

lemma runs_pchain_yield:
  "runs pchain_step (yield_all ms # ps) its True \<Longrightarrow> \<exists>b. its = map Bare ms @ b \<and> runs pchain_step ps b True"
  by (drule runs_pchain_Cons) (auto simp: emits_yield_all)

subsection \<open>Regions\<close>

lemma runs_rest: "runs (region_step sink istep tail) (RegionRest ps) its fin = runs pchain_step ps its fin"
  by (induction its arbitrary: ps) (auto simp: runs_simps)

lemma region_rest_step:
  assumes "map_option (map_prod id (map_prod id RegionRest)) (pchain_step ps v) = Some (item, snks, r)"
    "runs (region_step sink istep tail) r its fin"
  shows "runs pchain_step ps (item # its) fin"
proof -
  obtain qs where qs: "pchain_step ps v = Some (item, snks, qs)" "r = RegionRest qs"
    using assms(1) by (cases "pchain_step ps v") auto
  then show ?thesis using assms(2) unfolding runs_Cons qs(2) runs_rest by blast
qed

text \<open>Driven with the views \<open>vs\<close>, one per poll, a region that ends forwarded a part of its machine and then the tail.
  What ended it is what the poll after the last forwarded item found in the sink: \<open>None\<close> when the machine
  ended. At no poll before was there anything in the sink.\<close>

lemma runs_drive_iff: "runs step s its fin \<longleftrightarrow> (\<exists>vs. drive step s vs = (its, fin))"
proof
  assume "runs step s its fin"
  then show "\<exists>vs. drive step s vs = (its, fin)"
  proof (induction its arbitrary: s)
    case Nil
    then show ?case
    proof (cases fin)
      case True
      then obtain v where "step s v = None" using Nil by (auto simp: runs_Nil)
      then show ?thesis using True by (intro exI [of _ "[v]"]) simp
    qed (intro exI [of _ "[]"], simp)
  next
    case (Cons item its)
    then obtain v snks s1 vs where "step s v = Some (item, snks, s1)" "drive step s1 vs = (its, fin)"
      unfolding runs_Cons by blast
    then show ?case by (intro exI [of _ "v # vs"]) simp
  qed
qed (blast intro: runs_drive)

lemma drive_rest: "drive (region_step sink istep tail) (RegionRest ps) vs = drive pchain_step ps vs"
proof (induction vs arbitrary: ps)
  case (Cons v vs)
  then show ?case by (cases "pchain_step ps v") (auto split: prod.splits)
qed simp

definition sunk :: "sink_id \<Rightarrow> view \<Rightarrow> Thrown option" where
  "sunk sink v = hget (vw_sinks v) sink"

lemma drive_tail:
  assumes "drive (region_step sink istep tail) st (v # vs) = (its, True)"
    and "region_step sink istep tail st v = map_option (map_prod id (map_prod id RegionRest)) (pchain_step ps w)"
  shows "runs pchain_step ps its True"
proof (cases "pchain_step ps w")
  case None
  then show ?thesis using assms by (auto simp: runs_Nil)
next
  case (Some x)
  obtain item snks qs where x: "x = (item, snks, qs)" by (cases x)
  then obtain its1 where "its = item # its1" "drive pchain_step qs vs = (its1, True)"
    using assms Some by (auto simp: drive_rest split: prod.splits)
  then show ?thesis using Some x runs_drive [of pchain_step qs vs its1 True] unfolding \<open>its = item # its1\<close> runs_Cons by blast
qed

lemma drive_try:
  assumes "drive (region_step sink istep tail) (RegionTry check s) vs = (its, True)"
  shows "\<exists>body rest s'. its = body @ rest \<and> path istep s body s' \<and> length body < length vs
     \<and> (\<forall>k < length body. check \<or> 0 < k \<longrightarrow> sunk sink (vs ! k) = None)
     \<and> (let t = (if check \<or> body \<noteq> [] then sunk sink (vs ! length body) else None)
        in (t = None \<longrightarrow> (\<exists>v. istep s' v = None)) \<and> runs pchain_step (tail s' t) rest True)"
  using assms
proof (induction vs arbitrary: check s its)
  case (Cons v vs)
  let ?t = "if check then sunk sink v else None"
  show ?case
  proof (cases ?t)
    case (Some t)
    let ?v = "v\<lparr> vw_sinks := hdel sink (vw_sinks v) \<rparr>"
    have step: "region_step sink istep tail (RegionTry check s) v
        = map_option (map_prod id (map_prod id RegionRest)) (pchain_step (tail s (Some t)) ?v)"
      using Some by (simp add: sunk_def split: if_splits)
    from drive_tail [OF Cons.prems step]
    show ?thesis
      using Some by (intro exI [of _ "[]"] exI [of _ its] exI [of _ s]) (auto simp: Let_def split: if_splits)
  next
    case None
    show ?thesis
    proof (cases "istep s v")
      case no: None
      have step: "region_step sink istep tail (RegionTry check s) v
          = map_option (map_prod id (map_prod id RegionRest)) (pchain_step (tail s None) v)"
        using None no by (simp add: sunk_def split: if_splits)
      from drive_tail [OF Cons.prems step]
      show ?thesis
        using None no by (intro exI [of _ "[]"] exI [of _ its] exI [of _ s]) (auto simp: Let_def split: if_splits)
    next
      case (Some x)
      obtain item snks s1 where x: "istep s v = Some (item, snks, s1)" using Some by (cases x) auto
      then have "region_step sink istep tail (RegionTry check s) v = Some (item, snks, RegionTry True s1)"
        using None by (simp add: sunk_def split: if_splits)
      then obtain its1 where its1: "its = item # its1" "drive (region_step sink istep tail) (RegionTry True s1) vs = (its1, True)"
        using Cons.prems by (auto split: prod.splits)
      from Cons.IH [OF its1(2)] obtain body rest s' where ih: "its1 = body @ rest" "path istep s1 body s'"
        "length body < length vs" "\<forall>k < length body. sunk sink (vs ! k) = None"
        "(sunk sink (vs ! length body) = None \<longrightarrow> (\<exists>v. istep s' v = None))
           \<and> runs pchain_step (tail s' (sunk sink (vs ! length body))) rest True"
        by (auto simp: Let_def)
      have "\<forall>k < length (item # body). check \<or> 0 < k \<longrightarrow> sunk sink ((v # vs) ! k) = None"
        using ih(4) None by (auto simp: nth_Cons split: nat.split if_splits)
      moreover have "path istep s (item # body) s'" using x ih(2) by (auto intro: path_Cons)
      ultimately show ?thesis
        using its1(1) ih(1,3,5) by (intro exI [of _ "item # body"] exI [of _ rest] exI [of _ s']) (simp add: Let_def)
    qed
  qed
qed simp

text \<open>The parts of a tail.\<close>

definition recovers :: "(Thrown \<Rightarrow> plan) option \<Rightarrow> plan option \<Rightarrow> Thrown option \<Rightarrow> PlanItem list \<Rightarrow> bool" where
  "recovers except_plan else_plan t its =
     (case t of
        Some x \<Rightarrow> (case except_plan of Some build \<Rightarrow> emits (build x) its True | None \<Rightarrow> its = [])
      | None \<Rightarrow> (case else_plan of Some ep \<Rightarrow> emits ep its True | None \<Rightarrow> its = []))"

definition finishes :: "plan option \<Rightarrow> PlanItem list \<Rightarrow> bool" where
  "finishes final_plan its = (case final_plan of Some fp \<Rightarrow> emits fp its True | None \<Rightarrow> its = [])"

definition reraised :: "bool \<Rightarrow> Thrown option \<Rightarrow> PlanItem list" where
  "reraised again t = (case t of Some x \<Rightarrow> if again then [Bare (Raise x)] else [] | None \<Rightarrow> [])"

lemma runs_tail:
  assumes "runs pchain_step (region_tail except_plan else_plan final_plan auto_raise t) its True"
  shows "\<exists>recovery final. its = Bare PopContingency # recovery @ final @ reraised (except_plan = None \<or> auto_raise) t
           \<and> recovers except_plan else_plan t recovery \<and> finishes final_plan final"
proof -
  define re where "re = (case t of None \<Rightarrow> None | Some x \<Rightarrow> if except_plan = None \<or> auto_raise then Some x else None)"
  define rec where "rec = (case t of Some x \<Rightarrow> (case except_plan of Some build \<Rightarrow> [build x] | None \<Rightarrow> [])
      | None \<Rightarrow> (case else_plan of Some ep \<Rightarrow> [ep] | None \<Rightarrow> []))"
  let ?fin = "case final_plan of Some fp \<Rightarrow> [fp] | None \<Rightarrow> []"
  let ?re = "case re of Some x \<Rightarrow> [yield_all [Raise x]] | None \<Rightarrow> []"
  have "region_tail except_plan else_plan final_plan auto_raise t = yield_all [PopContingency] # rec @ ?fin @ ?re"
    unfolding region_tail_def rec_def re_def by (auto split: option.splits)
  with assms obtain its1 where its1: "its = Bare PopContingency # its1" "runs pchain_step (rec @ ?fin @ ?re) its1 True"
    using runs_pchain_yield [of "[PopContingency]"] by fastforce
  have split_opt: "\<exists>a b. xs = a @ b \<and> (case q of Some x \<Rightarrow> emits x a True | None \<Rightarrow> a = []) \<and> runs pchain_step ps b True"
    if "runs pchain_step ((case q of Some x \<Rightarrow> [x] | None \<Rightarrow> []) @ ps) xs True" for q xs ps
    using that by (cases q) (auto dest: runs_pchain_Cons)
  have rec_opt: "rec = (case (case t of Some x \<Rightarrow> map_option (\<lambda>build. build x) except_plan | None \<Rightarrow> else_plan) of
      Some x \<Rightarrow> [x] | None \<Rightarrow> [])"
    unfolding rec_def by (auto split: option.splits)
  from split_opt [OF its1(2) [unfolded rec_opt]] obtain a b where ab: "its1 = a @ b"
    "case (case t of Some x \<Rightarrow> map_option (\<lambda>build. build x) except_plan | None \<Rightarrow> else_plan) of
       Some x \<Rightarrow> emits x a True | None \<Rightarrow> a = []" "runs pchain_step (?fin @ ?re) b True" by blast
  from split_opt [OF ab(3)] obtain c d where cd: "b = c @ d" "finishes final_plan c" "runs pchain_step ?re d True"
    unfolding finishes_def by blast
  have "d = reraised (except_plan = None \<or> auto_raise) t"
    using cd(3) by (cases re; cases t)
      (auto simp: reraised_def re_def runs_pchain_Nil split: if_splits dest!: runs_pchain_yield)
  moreover have "recovers except_plan else_plan t a"
    using ab(2) by (auto simp: recovers_def split: option.splits)
  ultimately show ?thesis using its1(1) ab(1) cd by auto
qed

lemma runs_push:
  "runs (region_step sink istep tail) (RegionPush s) its True \<Longrightarrow>
     \<exists>its1. its = Bare (PushContingency sink) # its1 \<and> runs (region_step sink istep tail) (RegionTry False s) its1 True"
  by (cases its) (auto simp: runs_simps)

section \<open>What the wrappers promise\<close>

text \<open>What ended a region that forwarded \<open>body\<close>: poll 0 pushes the sink, poll 1 forwards without looking at it.\<close>

definition thrown_after :: "sink_id \<Rightarrow> view list \<Rightarrow> PlanItem list \<Rightarrow> Thrown option" where
  "thrown_after sink vs body = (if body = [] then None else sunk sink (vs ! Suc (length body)))"

text \<open>Nothing was in the sink at any poll before that one.\<close>

definition unthrown_during :: "sink_id \<Rightarrow> view list \<Rightarrow> PlanItem list \<Rightarrow> bool" where
  "unthrown_during sink vs body \<longleftrightarrow> (\<forall>k. 1 < k \<and> k \<le> length body \<longrightarrow> sunk sink (vs ! k) = None)"

lemma region_trace:
  assumes "drive (region_step sink istep tail) (RegionPush s) vs = (out, True)"
  shows "\<exists>body rest s'. out = Bare (PushContingency sink) # body @ rest \<and> path istep s body s'
           \<and> Suc (length body) < length vs \<and> unthrown_during sink vs body
           \<and> (thrown_after sink vs body = None \<longrightarrow> (\<exists>v. istep s' v = None))
           \<and> runs pchain_step (tail s' (thrown_after sink vs body)) rest True"
proof -
  obtain v ws its where vs: "vs = v # ws" "out = Bare (PushContingency sink) # its"
    "drive (region_step sink istep tail) (RegionTry False s) ws = (its, True)"
    using assms by (cases vs) (auto split: prod.splits)
  have t: "thrown_after sink vs body = (if False \<or> body \<noteq> [] then sunk sink (ws ! length body) else None)" for body
    by (simp add: thrown_after_def vs(1))
  from drive_try [OF vs(3)] obtain body rest s' where r: "its = body @ rest" "path istep s body s'" "length body < length ws"
    "\<forall>k < length body. False \<or> 0 < k \<longrightarrow> sunk sink (ws ! k) = None"
    "let t = thrown_after sink vs body
     in (t = None \<longrightarrow> (\<exists>v. istep s' v = None)) \<and> runs pchain_step (tail s' t) rest True"
    unfolding t by (elim exE conjE)
  have "unthrown_during sink vs body"
    unfolding unthrown_during_def vs(1) using r(4) by (auto simp: nth_Cons split: nat.split)
  then show ?thesis
    using r vs by (intro exI [of _ body] exI [of _ rest] exI [of _ s']) (simp add: Let_def)
qed

lemma drive_unfold: "drive plan_next (unfold_plan step s) vs = drive step s vs"
proof (induction vs arbitrary: s)
  case (Cons v vs)
  then show ?case by (cases "step s v") (auto split: prod.splits)
qed simp

text \<open>C4. A contingency region is try/except/else/finally, whatever the views \<open>vs\<close> of the engine it is polled with:
  a wrapper that comes to its end has pushed its sink, forwarded the inner plan, popped the sink before anything
  else, run exactly one of the recovery plan (on what was thrown) and the else plan, then the final plan on
  both paths, and raised again exactly what was thrown when no recovery plan swallowed it. What was thrown is what
  the first poll after a forwarded message that finds something in the sink finds there; when no such poll comes, nothing was
  thrown and the inner plan was forwarded to its end.\<close>

theorem contingency_wrapper_trace:
  assumes "drive plan_next (contingency_wrapper sink inner except_plan else_plan final_plan auto_raise) vs = (out, True)"
  shows "\<exists>body recovery final.
           let t = thrown_after sink vs body in
           out = Bare (PushContingency sink) # body @ Bare PopContingency # recovery @ final
                   @ reraised (except_plan = None \<or> auto_raise) t
         \<and> unthrown_during sink vs body \<and> emits inner body (t = None)
         \<and> recovers except_plan else_plan t recovery \<and> finishes final_plan final"
proof -
  let ?t = "\<lambda>body. thrown_after sink vs body"
  from region_trace [OF assms [unfolded contingency_wrapper_def drive_unfold]] obtain body rest p
    where r: "out = Bare (PushContingency sink) # body @ rest" "path plan_next inner body p"
      "Suc (length body) < length vs" "unthrown_during sink vs body"
      "?t body = None \<longrightarrow> (\<exists>v. plan_next p v = None)"
      "runs pchain_step (region_tail except_plan else_plan final_plan auto_raise (?t body)) rest True"
    by (elim exE conjE)
  have inner: "emits inner body (?t body = None)"
    unfolding emits_def runs_def by (intro exI [of _ p] conjI r(2,5))
  from runs_tail [OF r(6)] obtain recovery final
    where tl: "rest = Bare PopContingency # recovery @ final @ reraised (except_plan = None \<or> auto_raise) (?t body)"
      "recovers except_plan else_plan (?t body) recovery" "finishes final_plan final" by (elim exE conjE)
  show ?thesis
    unfolding Let_def
    by (intro exI [of _ body] exI [of _ recovery] exI [of _ final] conjI r(4) inner tl(2,3)) (simp add: r(1) tl(1))
qed

lemma emits_yield_cut: "emits (yield_all (ms @ ms')) (map Bare ms) False"
proof -
  have "path yield_step (ms @ ms') (map Bare ms) ms'" unfolding path_yield by (simp add: comp_def)
  then show ?thesis unfolding yield_all_def emits_unfold runs_def by blast
qed

definition any_view :: view where
  "any_view = \<lparr> vw_trace = [], vw_reply = None, vw_sinks = [] \<rparr>"

definition thrown_view :: "sink_id \<Rightarrow> Thrown \<Rightarrow> view" where
  "thrown_view sink t = \<lparr> vw_trace = [], vw_reply = None, vw_sinks = [(sink, t)] \<rparr>"

text \<open>A plan whose second message fails, in a region with a final plan.\<close>

definition failing_views :: "view list" where
  "failing_views =
     [any_view, any_view, thrown_view 1 (ThrownError Cancelled), any_view, any_view, any_view]"

lemma failing_region:
  "drive plan_next (contingency_wrapper 1 (yield_all [Checkpoint, Null]) None None (Some (yield_all [Save])) True) failing_views
     = ([Bare (PushContingency 1), Bare Checkpoint, Bare PopContingency, Bare Save, Bare (Raise (ThrownError Cancelled))], True)"
  unfolding contingency_wrapper_def drive_unfold
  by (simp add: failing_views_def yield_all_def any_view_def thrown_view_def region_tail_def hmem_def)

theorem contingency_wrapper_trace_witness:
  "\<exists>body recovery final. let t = thrown_after 1 failing_views body in
     [Bare (PushContingency 1), Bare Checkpoint, Bare PopContingency, Bare Save, Bare (Raise (ThrownError Cancelled))]
       = Bare (PushContingency 1) # body @ Bare PopContingency # recovery @ final @ reraised True t
     \<and> unthrown_during 1 failing_views body \<and> emits (yield_all [Checkpoint, Null]) body (t = None)
     \<and> recovers None None t recovery \<and> finishes (Some (yield_all [Save])) final"
  using contingency_wrapper_trace [OF failing_region] by simp

text \<open>The first plan of a chain, when it yields one message, takes the first view; the region after it has the others.\<close>

lemma drive_pchain_single: "drive pchain_step [p] vs = drive plan_next p vs"
proof (induction vs arbitrary: p)
  case (Cons v vs)
  then show ?case by (cases "plan_next p v") (auto split: prod.splits)
qed simp

lemma drive_pchain_done: "drive pchain_step (yield_all [] # ps) vs = drive pchain_step ps vs"
  by (cases vs) (simp_all add: yield_all_def)

lemma drive_pchain_one:
  assumes "drive plan_next (pchain [yield_all [m], p]) vs = (out, True)"
  shows "\<exists>its. out = Bare m # its \<and> drive plan_next p (tl vs) = (its, True)"
proof (cases vs)
  case (Cons v ws)
  have "pchain_step [yield_all [m], p] v = Some (Bare m, vw_sinks v, [yield_all [], p])"
    by (simp add: yield_all_def)
  then show ?thesis
    using assms drive_pchain_done [of "[p]" ws] drive_pchain_single [of p ws]
    unfolding Cons pchain_def drive_unfold by (auto split: prod.splits)
qed (use assms in simp)

text \<open>C5. A run made by \<open>run_wrapper\<close> is opened once and closed once by the plan itself, whatever the views \<open>vs\<close>
  it is polled with: the close comes after the region has been left, with \<open>success\<close> when nothing was thrown, \<open>fail\<close> and
  the error's text when an error was, and the interrupt's own exit status when an interrupt was, always a status the
  event model knows; what was thrown, which is what the first poll after a forwarded message that finds something in
  the region's sink finds there, is raised again.\<close>

theorem run_wrapper_trace:
  assumes "drive plan_next (run_wrapper text sink inner md) vs = (out, True)"
  shows "\<exists>body status reason.
           let t = thrown_after sink (tl vs) body in
           out = [Bare (OpenRun md), Bare (PushContingency sink)] @ body
                   @ [Bare PopContingency, Bare (CloseRun status reason)] @ reraised True t
         \<and> unthrown_during sink (tl vs) body \<and> emits inner body (t = None) \<and> exit_status_from_str status \<noteq> None
         \<and> (status, reason) = (case t of
              None \<Rightarrow> (''success'', None)
            | Some (ThrownError e) \<Rightarrow> (''fail'', Some (text e))
            | Some (ThrownInterrupt kind why) \<Rightarrow> (interrupt_exit_status kind, why))"
proof -
  from drive_pchain_one [OF assms [unfolded run_wrapper_def]] obtain b where b: "out = Bare (OpenRun md) # b"
    "drive plan_next (contingency_wrapper sink inner (Some (run_wrapper_except text))
        (Some (yield_all [CloseRun ''success'' None])) None True) (tl vs) = (b, True)" by blast
  from contingency_wrapper_trace [OF b(2), unfolded Let_def] obtain body recovery final
    where "b = Bare (PushContingency sink) # body @ Bare PopContingency # recovery @ final
                @ reraised True (thrown_after sink (tl vs) body)"
      "unthrown_during sink (tl vs) body" "emits inner body (thrown_after sink (tl vs) body = None)"
      "recovers (Some (run_wrapper_except text)) (Some (yield_all [CloseRun ''success'' None]))
         (thrown_after sink (tl vs) body) recovery" "finishes None final"
    by auto
  note r = this(1-4) this(5) [unfolded finishes_def option.case]
  define t where "t = thrown_after sink (tl vs) body"
  have "\<exists>status reason. recovery = [Bare (CloseRun status reason)] \<and> exit_status_from_str status \<noteq> None
      \<and> (status, reason) = (case t of
              None \<Rightarrow> (''success'', None)
            | Some (ThrownError e) \<Rightarrow> (''fail'', Some (text e))
            | Some (ThrownInterrupt kind why) \<Rightarrow> (interrupt_exit_status kind, why))"
  proof (cases t)
    case None
    then show ?thesis using r(4) by (simp add: recovers_def emits_yield_all exit_status_from_str_def t_def)
  next
    case (Some x)
    note simps = recovers_def run_wrapper_except_def emits_yield_all exit_status_from_str_def Some
    show ?thesis
    proof (cases x)
      case (ThrownError e)
      then show ?thesis using r(4) [folded t_def] by (simp add: simps)
    next
      case (ThrownInterrupt kind why)
      then show ?thesis using r(4) [folded t_def] by (cases kind) (simp_all add: simps)
    qed
  qed
  then obtain status reason where "recovery = [Bare (CloseRun status reason)]" "exit_status_from_str status \<noteq> None"
    "(status, reason) = (case t of
              None \<Rightarrow> (''success'', None)
            | Some (ThrownError e) \<Rightarrow> (''fail'', Some (text e))
            | Some (ThrownInterrupt kind why) \<Rightarrow> (interrupt_exit_status kind, why))" by blast
  then show ?thesis
    using b(1) r [folded t_def] unfolding t_def [symmetric] Let_def
    by (intro exI [of _ body] exI [of _ status] exI [of _ reason] conjI) (simp_all add: t_def)
qed

text \<open>An abort while the plan waits: the run is closed with the interrupt's status.\<close>

definition aborting_views :: "view list" where
  "aborting_views = [any_view, any_view, any_view, thrown_view 1 (ThrownInterrupt IAbort None), any_view, any_view, any_view]"

lemma aborting_run:
  "drive plan_next (run_wrapper (\<lambda>_. '''') 1 (yield_all [Checkpoint, Null]) no_metadata) aborting_views
     = ([Bare (OpenRun no_metadata), Bare (PushContingency 1), Bare Checkpoint, Bare PopContingency,
         Bare (CloseRun ''abort'' None), Bare (Raise (ThrownInterrupt IAbort None))], True)"
  unfolding run_wrapper_def pchain_def drive_unfold
  by (simp add: aborting_views_def yield_all_def contingency_wrapper_def region_tail_def any_view_def thrown_view_def
      run_wrapper_except_def hmem_def)

theorem run_wrapper_trace_witness:
  "\<exists>body status reason. let t = thrown_after 1 (tl aborting_views) body in
     [Bare (OpenRun no_metadata), Bare (PushContingency 1), Bare Checkpoint, Bare PopContingency,
         Bare (CloseRun ''abort'' None), Bare (Raise (ThrownInterrupt IAbort None))]
     = [Bare (OpenRun no_metadata), Bare (PushContingency 1)] @ body
         @ [Bare PopContingency, Bare (CloseRun status reason)] @ reraised True t
     \<and> emits (yield_all [Checkpoint, Null]) body (t = None) \<and> exit_status_from_str status \<noteq> None"
  using run_wrapper_trace [OF aborting_run] unfolding Let_def by blast

subsection \<open>During a run\<close>

text \<open>What one item of the inner plan becomes.\<close>

definition expand :: "Msg list \<Rightarrow> Msg list \<Rightarrow> PlanItem \<Rightarrow> PlanItem list" where
  "expand after_open before_close item =
     (if is_open_run (item_msg item) then item # map Bare after_open
      else if is_close_run (item_msg item) then map Bare before_close @ [item]
      else [item])"

lemma during_flush:
  "runs (during_step ao bc) (items, p) its True \<longleftrightarrow>
     (\<exists>rest. its = items @ rest \<and> runs (during_step ao bc) ([], p) rest True)"
proof (induction items arbitrary: its)
  case (Cons item items)
  show ?case
  proof (cases its)
    case (Cons x xs)
    have "runs (during_step ao bc) (item # items, p) (x # xs) True \<longleftrightarrow> x = item \<and> runs (during_step ao bc) (items, p) xs True"
      unfolding runs_Cons by auto
    then show ?thesis using Cons Cons.IH [of xs] by auto
  qed (simp add: runs_Nil)
qed simp

lemma runs_during:
  "runs (during_step ao bc) ([], p) out True \<Longrightarrow> \<exists>its. emits p its True \<and> out = concat (map (expand ao bc) its)"
proof (induction "length out" arbitrary: out p rule: less_induct)
  case less
  show ?case
  proof (cases out)
    case Nil
    then obtain v where "during_step ao bc ([], p) v = None" using less.prems by (auto simp: runs_simps)
    then have "plan_next p v = None" by (auto split: option.splits if_splits list.splits)
    then have "emits p [] True" by (auto simp: emits_def runs_simps)
    then show ?thesis using Nil by force
  next
    case (Cons first out')
    then obtain v snks items p1 where v: "during_step ao bc ([], p) v = Some (first, snks, items, p1)"
      "runs (during_step ao bc) (items, p1) out' True" using less.prems by (auto simp: runs_simps)
    then obtain item where item: "plan_next p v = Some (item, snks, p1)" "expand ao bc item = first # items"
      by (auto simp: expand_def split: option.splits if_splits list.splits)
    from v(2) obtain rest where rest: "out' = items @ rest" "runs (during_step ao bc) ([], p1) rest True"
      using during_flush [of ao bc items p1 out'] by blast
    have "length rest < length out" using Cons rest(1) by simp
    from less.hyps [OF this rest(2)] obtain its where its: "emits p1 its True" "rest = concat (map (expand ao bc) its)"
      by blast
    have "emits p (item # its) True" using item(1) its(1) by (auto simp: emits_def runs_simps)
    moreover have "out = concat (map (expand ao bc) (item # its))" using Cons rest(1) its(2) item(2) by simp
    ultimately show ?thesis by blast
  qed
qed

text \<open>C6. \<open>during_run_wrapper\<close> only inserts at the boundary of runs: what it emits is what the inner plan
  emits, item by item, with the opening messages right after every \<open>OpenRun\<close> and the closing ones right before every
  \<open>CloseRun\<close>, and nothing in a plan without a run of its own.\<close>

theorem during_run_inserts_at_the_boundary:
  assumes "emits (during_run_wrapper inner after_open before_close) out True"
  shows "\<exists>its. emits inner its True \<and> out = concat (map (expand after_open before_close) its)"
  using assms unfolding during_run_wrapper_def emits_unfold by (rule runs_during)

theorem during_run_inserts_at_the_boundary_witness:
  "\<exists>its. emits (yield_all [Checkpoint]) its True
     \<and> [Bare Checkpoint] = concat (map (expand (baseline_block [] ''baseline'') [Save]) its)"
proof -
  have "emits (during_run_wrapper (yield_all [Checkpoint]) (baseline_block [] ''baseline'') [Save]) [Bare Checkpoint] True"
    unfolding during_run_wrapper_def emits_unfold
    by (rule runs_drive [where vs = "[any_view, any_view]"]) (simp add: yield_all_def is_open_run_def is_close_run_def)
  from during_run_inserts_at_the_boundary [OF this] show ?thesis .
qed

subsection \<open>Lazy staging\<close>

fun stage_of :: "PlanItem \<Rightarrow> device option" where
  "stage_of item = (case item_msg item of Stage d \<Rightarrow> Some d | _ \<Rightarrow> None)"

definition stages :: "PlanItem list \<Rightarrow> device list" where
  "stages = filter_map stage_of"

definition no_stage :: "plan \<Rightarrow> bool" where
  "no_stage p \<longleftrightarrow> (\<forall>its. emits p its False \<longrightarrow> stages its = [])"

lemma no_stage_next:
  assumes "no_stage p" "plan_next p v = Some (item, snks, p')"
  shows "stage_of item = None" and "no_stage p'"
proof -
  have "emits p (item # its) False" if "emits p' its False" for its
    using that assms(2) unfolding emits_def runs_Cons by blast
  moreover have "emits p' [] False" by (simp add: emits_def runs_Nil)
  ultimately show "stage_of item = None" "no_stage p'"
    using assms(1) unfolding no_stage_def stages_def by (fastforce split: option.splits)+
qed

definition held_stage :: "(PlanItem \<times> device) option \<Rightarrow> device list" where
  "held_stage held = (case held of None \<Rightarrow> [] | Some (item, d) \<Rightarrow> [d])"

lemma by_name_name: "hget (by_name devices) name = Some d \<Longrightarrow> dv_name d = name"
  unfolding by_name_def hget_hextend by (auto dest!: map_of_SomeD split: option.splits)

text \<open>The staging machine: what it has staged so far, in order and each name once, and the device
  whose \<open>Stage\<close> the engine has not taken yet.\<close>

definition lazy_ok :: "device list \<Rightarrow> (PlanItem \<times> device) option \<times> device list \<times> string list \<times> plan \<Rightarrow> bool" where
  "lazy_ok S st =
     (let (held, staged, seen, p) = st in
      no_stage p \<and> (case held of None \<Rightarrow> True | Some (item, _) \<Rightarrow> stage_of item = None)
      \<and> S = staged @ held_stage held \<and> set (map dv_name S) \<subseteq> set seen \<and> distinct (map dv_name S))"

lemma stages_simps [simp]:
  "stages [] = []" "stages (item # its) = (case stage_of item of Some d \<Rightarrow> [d] | None \<Rightarrow> []) @ stages its"
  by (simp_all add: stages_def split: option.splits)

lemma lazy_step_ok:
  assumes ok: "lazy_ok S st" and step: "lazy_step devices st v = Some (item, snks, st')"
  shows "lazy_ok (S @ stages [item]) st'"
proof -
  obtain held staged seen p where st: "st = (held, staged, seen, p)" by (cases st)
  show ?thesis
  proof (cases held)
    case (Some x)
    then show ?thesis using ok step st by (cases x) (auto simp: lazy_ok_def lazy_step_def held_stage_def)
  next
    case None
    then obtain it k p' where next_p: "plan_next p v = Some (it, k, p')"
      using step st by (auto simp: lazy_step_def split: option.splits)
    have inner: "stage_of it = None" "no_stage p'"
      using no_stage_next [OF _ next_p] ok st by (simp_all add: lazy_ok_def)
    have S: "S = staged" "set (map dv_name S) \<subseteq> set seen" "distinct (map dv_name S)"
      using ok st None unfolding lazy_ok_def held_stage_def by auto
    show ?thesis
    proof (cases "\<exists>name d. touched (item_msg it) = Some name \<and> name \<notin> set seen \<and> hget (by_name devices) name = Some d")
      case True
      then obtain name d where t: "touched (item_msg it) = Some name" "name \<notin> set seen"
        "hget (by_name devices) name = Some d" by blast
      then have "item = Bare (Stage d)" "st' = (Some (it, d), staged, name # seen, p')"
        using step st None next_p by (auto simp: lazy_step_def)
      then show ?thesis
        using S inner t by_name_name [OF t(3)] by (auto simp: lazy_ok_def held_stage_def)
    next
      case False
      then have "item = it" "\<exists>seen'. st' = (None, staged, seen', p') \<and> set seen \<subseteq> set seen'"
        using step st None next_p by (auto simp: lazy_step_def split: option.splits if_splits)
      then show ?thesis using S inner by (auto simp: lazy_ok_def held_stage_def)
    qed
  qed
qed

lemma lazy_path_ok: "path (lazy_step devices) st its st' \<Longrightarrow> lazy_ok S st \<Longrightarrow> lazy_ok (S @ stages its) st'"
proof (induction arbitrary: S rule: path.induct)
  case (path_Cons st v item snks st1 its st2)
  from path_Cons.IH [OF lazy_step_ok [OF path_Cons.prems path_Cons.hyps(1)]] show ?case by simp
qed simp

text \<open>An item is held back exactly after the wrapper's own \<open>Stage\<close>.\<close>

lemma lazy_step_held:
  assumes "lazy_ok S st" and "lazy_step devices st v = Some (item, snks, st')"
  shows "fst st' = None \<longleftrightarrow> stage_of item = None"
proof -
  obtain held staged seen p where st: "st = (held, staged, seen, p)" by (cases st)
  show ?thesis
  proof (cases held)
    case (Some x)
    then show ?thesis using assms st by (cases x) (auto simp: lazy_ok_def lazy_step_def)
  next
    case None
    then obtain it k p' where next_p: "plan_next p v = Some (it, k, p')"
      using assms(2) st by (auto simp: lazy_step_def split: option.splits)
    have "stage_of it = None" using no_stage_next [OF _ next_p] assms(1) st by (simp add: lazy_ok_def)
    moreover have "item = it \<and> fst st' = None \<or> (\<exists>d. item = Bare (Stage d)) \<and> fst st' \<noteq> None"
      using assms(2) st None next_p by (auto simp: lazy_step_def split: option.splits if_splits)
    ultimately show ?thesis by auto
  qed
qed

lemma lazy_path_held:
  "path (lazy_step devices) st its st' \<Longrightarrow> lazy_ok S st \<Longrightarrow> its \<noteq> [] \<Longrightarrow> fst st' = None \<longleftrightarrow> stage_of (last its) = None"
proof (induction arbitrary: S rule: path.induct)
  case (path_Cons st v item snks st1 its st2)
  show ?case
  proof (cases "its = []")
    case True
    then show ?thesis using path_Cons.hyps lazy_step_held [OF path_Cons.prems(1) path_Cons.hyps(1)] by simp
  next
    case False
    then show ?thesis using path_Cons.IH [OF lazy_step_ok [OF path_Cons.prems(1) path_Cons.hyps(1)]] by simp
  qed
qed simp

text \<open>C7. \<open>lazily_stage_wrapper\<close>, around a plan that stages nothing itself and whatever the views \<open>vs\<close> it is polled
  with, stages a device at most once, and on its way out unstages exactly what it staged in reverse order, whatever way the
  plan ends. The one exception: when something is thrown right after a \<open>Stage\<close>, the device it staged is missing from
  the unstaging, because it is only recorded once the wrapper is polled again.\<close>

theorem lazily_stage_unstages:
  assumes "drive plan_next (lazily_stage_wrapper sink inner devices) vs = (out, True)" and "no_stage inner"
  shows "\<exists>body.
           let t = thrown_after sink vs body;
               cut_short = (body \<noteq> [] \<and> stage_of (last body) \<noteq> None);
               recorded = (if cut_short then butlast (stages body) else stages body)
           in out = Bare (PushContingency sink) # body @ Bare PopContingency
                   # map (\<lambda>d. Bare (Unstage d)) (rev recorded) @ reraised True t
         \<and> unthrown_during sink vs body \<and> distinct (map dv_name (stages body)) \<and> (cut_short \<longrightarrow> t \<noteq> None)"
proof -
  from region_trace [OF assms(1) [unfolded lazily_stage_wrapper_def finalize_with_def drive_unfold]] obtain body rest st
    where r: "out = Bare (PushContingency sink) # body @ rest" "path (lazy_step devices) (None, [], [], inner) body st"
      "Suc (length body) < length vs" "unthrown_during sink vs body"
      "thrown_after sink vs body = None \<longrightarrow> (\<exists>v. lazy_step devices st v = None)"
      "runs pchain_step (region_tail None None
         (Some (case st of (_, staged, _, _) \<Rightarrow> yield_all (map Unstage (rev staged)))) True (thrown_after sink vs body)) rest True"
    by (elim exE conjE)
  define t where "t = thrown_after sink vs body"
  define cut_short where "cut_short \<longleftrightarrow> body \<noteq> [] \<and> stage_of (last body) \<noteq> None"
  obtain held staged seen p where st: "st = (held, staged, seen, p)" by (cases st)
  have ok0: "lazy_ok [] (None, [], [], inner)" using assms(2) by (simp add: lazy_ok_def held_stage_def)
  from lazy_path_ok [OF r(2) ok0] have ok: "stages body = staged @ held_stage held" "distinct (map dv_name (stages body))"
    unfolding lazy_ok_def st Let_def prod.case append_Nil by blast+
  have held: "held = None \<longleftrightarrow> \<not> cut_short"
  proof (cases "body = []")
    case True
    then show ?thesis using r(2) st by (simp add: cut_short_def)
  next
    case False
    then show ?thesis using lazy_path_held [OF r(2) ok0] st by (simp add: cut_short_def)
  qed
  have thrown: "cut_short \<longrightarrow> t \<noteq> None" using r(5) held st by (cases held) (auto simp: lazy_step_def t_def)
  have staged: "staged = (if cut_short then butlast (stages body) else stages body)"
    using ok(1) held by (cases held) (auto simp: held_stage_def)
  from runs_tail [OF r(6)] obtain recovery final
    where tl: "rest = Bare PopContingency # recovery @ final @ reraised (None = (None :: (Thrown \<Rightarrow> plan) option) \<or> True) t"
      "recovers None None t recovery"
      "finishes (Some (case st of (_, staged, _, _) \<Rightarrow> yield_all (map Unstage (rev staged)))) final"
    unfolding t_def by (elim exE conjE)
  have "recovery = []" "final = map (\<lambda>d. Bare (Unstage d)) (rev staged)"
    using tl(2,3) by (auto simp: recovers_def finishes_def st emits_yield_all comp_def split: option.splits)
  then have "out = Bare (PushContingency sink) # body @ Bare PopContingency # map (\<lambda>d. Bare (Unstage d)) (rev staged) @ reraised True t"
    using r(1) tl(1) by simp
  then show ?thesis
    unfolding Let_def
    by (intro exI [of _ body] conjI r(4) ok(2) thrown [unfolded t_def cut_short_def]) (simp only: t_def [symmetric] cut_short_def [symmetric] staged)
qed

lemma no_stage_yield: "\<forall>m \<in> set ms. stage_of (Bare m) = None \<Longrightarrow> no_stage (yield_all ms)"
  unfolding no_stage_def
proof (intro allI impI)
  fix its
  assume ms: "\<forall>m \<in> set ms. stage_of (Bare m) = None" and "emits (yield_all ms) its False"
  then obtain ms' where "ms = map item_msg its @ ms'" "its = map Bare (map item_msg its)"
    unfolding yield_all_def emits_unfold runs_def path_yield by blast
  then have "stage_of item = None" if "item \<in> set its" for item
    using bspec [OF ms, of "item_msg item"] that by simp
  then show "stages its = []" by (induction its) auto
qed

text \<open>An abort that arrives while the detector is being staged.\<close>

definition staging_views :: "view list" where
  "staging_views = [any_view, any_view, thrown_view 1 (ThrownInterrupt IAbort None), any_view, any_view]"

lemma staging_aborted:
  "drive plan_next (lazily_stage_wrapper 1 (yield_all [Read detector]) [detector]) staging_views
     = ([Bare (PushContingency 1), Bare (Stage detector), Bare PopContingency, Bare (Raise (ThrownInterrupt IAbort None))], True)"
  unfolding lazily_stage_wrapper_def finalize_with_def drive_unfold
  by (simp add: staging_views_def yield_all_def any_view_def thrown_view_def region_tail_def hmem_def lazy_step_def touched_def
      by_name_def detector_def)

theorem lazily_stage_unstages_witness:
  "\<exists>body. Bare (PushContingency 1) # [Bare (Stage detector), Bare PopContingency, Bare (Raise (ThrownInterrupt IAbort None))]
     = Bare (PushContingency 1) # body @ Bare PopContingency
         # map (\<lambda>d. Bare (Unstage d)) (rev (if body \<noteq> [] \<and> stage_of (last body) \<noteq> None then butlast (stages body) else stages body))
         @ reraised True (thrown_after 1 staging_views body)"
proof -
  have "no_stage (yield_all [Read detector])" by (rule no_stage_yield) simp
  from lazily_stage_unstages [OF staging_aborted this] show ?thesis unfolding Let_def by blast
qed

subsection \<open>Where the wrappers look away\<close>

text \<open>\<open>stub_wrapper\<close> and the run-boundary wrappers look at the message itself and not inside an \<open>InRun\<close>: a run
  opened under a key passes a wrapper that is meant to forbid it, and gets no baseline, monitors or flyers.\<close>

theorem keyed_run_escapes_wrappers:
  "drive plan_next (stub_wrapper (yield_all [InRun key (OpenRun md)])) [v, v'] = ([Bare (InRun key (OpenRun md))], True)"
  "expand after_open before_close (Bare (InRun key (OpenRun md))) = [Bare (InRun key (OpenRun md))]"
  by (simp_all add: stub_wrapper_def stub_step_def yield_all_def is_open_run_def is_close_run_def expand_def)

text \<open>A relative move of a motor that cannot be located is issued as an absolute one.\<close>

theorem unlocated_motor_moves_absolute:
  "drive plan_next (relative_set_wrapper (+) (\<lambda>_ _. None) (yield_all [Set d x g]) [d]) [v] = ([Bare (Set d x g)], False)"
  by (simp add: relative_set_wrapper_def relative_set_step_def yield_all_def set_target_def by_name_def)

definition abort_at_entry :: world where
  "abort_at_entry = quiet_world\<lparr> w_requests := (\<lambda>t. if t = [Polled] then [QAbort ''beam lost''] else []) \<rparr>"

definition guarded_then_scan :: "sink_id \<Rightarrow> plan" where
  "guarded_then_scan sink =
     pchain [finalize_wrapper sink empty_plan (yield_all [Null]), plan_of one_point_scan]"

text \<open>An abort that arrives while a region is being entered is thrown into its sink before the
  wrapper has forwarded anything; the wrapper looks at the sink only after forwarding a message, so with an empty inner plan
  it never looks: the abort is lost, and the scan that follows runs to its success.\<close>

theorem abort_at_region_entry_is_lost:
  "case fst (run_async 15 (guarded_then_scan 1) (engine_new abort_at_entry)) of
     Ok r \<Rightarrow> rr_exit_status r = ''success'' \<and> length (rr_run_uids r) = 1 | _ \<Rightarrow> False"
  by code_simp

text \<open>The same abort ends the same scan when no region is being entered.\<close>

theorem abort_at_entry_ends_scan:
  "case fst (run_async 15 (plan_of (Checkpoint # one_point_scan)) (engine_new abort_at_entry)) of
     Ok r \<Rightarrow> rr_exit_status r = ''abort'' \<and> rr_run_uids r = [] | _ \<Rightarrow> False"
  by code_simp

end
