(* ===== verification/Control_Threads.thy ===== *)
theory Control_Threads
  imports Control "HOL-Library.Multiset"
begin

text \<open>
  The control plane as the threads see it (\<open>engine/run_engine.rs\<close>). The runtime is multi-threaded
  (\<open>core/runtime.rs\<close>) and the requests are methods on \<open>&self\<close>, so two of them can overlap: the unit that
  nothing interrupts is one load or store of an atomic, or one critical section of a mutex. \<open>call\<close> is the
  point at which a request in progress stands, \<open>call_step\<close> its next instruction, and \<open>entry\<close> the
  same for the resets at the start of \<open>run_async\<close>. The operations of the theory \<open>Control\<close> are the
  calls that run to their end without another in between (\<open>call_runs\<close>, \<open>entry_runs\<close>).

  \<open>threads_step\<close> interleaves any number of calls, the futures of suspensions, the entry of \<open>run_async\<close> and
  the acknowledgements of the run loop, instruction by instruction.
\<close>

section \<open>Calls, one instruction at a time\<close>

text \<open>\<open>MarkStore\<close> to \<open>MarkNotify\<close> are \<open>mark_paused\<close>, with the generation when a suspension made the call;
  \<open>WakeStore\<close> and \<open>WakeNotify\<close> are \<open>wake\<close>.\<close>

datatype call =
    DeferStore | PauseManual
  | MarkStore "u64 option" | MarkCount "u64 option" | MarkNotify "u64 option"
  | SuspendStore Suspension | SuspendHold | SuspendGen | SuspendSpawn u64
  | ReleaseGen u64 | ReleaseHold | ReleaseManual
  | ResumeManual | WakeStore | WakeNotify
  | AbortReason string | AbortFlag | AbortStopping
  | HaltReason string | HaltFlag | HaltAborting
  | StopFlag | StopAborting | CountInterrupt
  | Returned

fun call_step :: "call \<Rightarrow> control \<Rightarrow> call \<times> control" where
  "call_step DeferStore c = (Returned, c\<lparr> ct_deferred_pause := True \<rparr>)"
| "call_step PauseManual c = (MarkStore None, upd_ctl (\<lambda>k. k\<lparr> rc_manual_pause := True \<rparr>) c)"
| "call_step (MarkStore go) c = (MarkCount go, upd_ctl (\<lambda>k. k\<lparr> rc_is_paused := True \<rparr>) c)"
| "call_step (MarkCount go) c =
     (MarkNotify go, upd_ctl (\<lambda>k. k\<lparr> rc_pause_seq := rc_pause_seq k + 1, rc_cancelled := True \<rparr>) c)"
| "call_step (MarkNotify go) c =
     ((case go of None \<Rightarrow> Returned | Some g \<Rightarrow> SuspendSpawn g),
      upd_ctl (\<lambda>k. k\<lparr> rc_pause_notify := Suc (rc_pause_notify k) \<rparr>) c)"
| "call_step (SuspendStore su) c = (SuspendHold, upd_ctl (\<lambda>k. k\<lparr> rc_pending_suspend := Some su \<rparr>) c)"
| "call_step SuspendHold c = (SuspendGen, upd_ctl (\<lambda>k. k\<lparr> rc_holds := Suc (rc_holds k) \<rparr>) c)"
| "call_step SuspendGen c = (MarkStore (Some (rc_run_gen (ct_ctl c))), c)"
| "call_step (SuspendSpawn g) c = (Returned, c)"
| "call_step (ReleaseGen g) c = (if g \<noteq> rc_run_gen (ct_ctl c) then Returned else ReleaseHold, c)"
| "call_step ReleaseHold c =
     (if rc_holds (ct_ctl c) \<le> 1 then ReleaseManual else Returned,
      upd_ctl (\<lambda>k. k\<lparr> rc_holds := rc_holds k - 1 \<rparr>) c)"
| "call_step ReleaseManual c = (if rc_manual_pause (ct_ctl c) then Returned else WakeStore, c)"
| "call_step ResumeManual c = (WakeStore, upd_ctl (\<lambda>k. k\<lparr> rc_manual_pause := False \<rparr>) c)"
| "call_step WakeStore c = (WakeNotify, upd_ctl (\<lambda>k. k\<lparr> rc_is_paused := False \<rparr>) c)"
| "call_step WakeNotify c = (Returned, upd_ctl (\<lambda>k. k\<lparr> rc_permit := Suc (rc_permit k) \<rparr>) c)"
| "call_step (AbortReason r) c = (AbortFlag, c\<lparr> ct_interrupt_reason := r \<rparr>)"
| "call_step AbortFlag c = (AbortStopping, c\<lparr> ct_is_aborting := True \<rparr>)"
| "call_step AbortStopping c = (CountInterrupt, c\<lparr> ct_is_stopping := False \<rparr>)"
| "call_step (HaltReason r) c = (HaltFlag, c\<lparr> ct_interrupt_reason := r \<rparr>)"
| "call_step HaltFlag c = (HaltAborting, c\<lparr> ct_is_halting := True \<rparr>)"
| "call_step HaltAborting c = (CountInterrupt, c\<lparr> ct_is_aborting := True \<rparr>)"
| "call_step StopFlag c = (StopAborting, c\<lparr> ct_is_stopping := True \<rparr>)"
| "call_step StopAborting c = (CountInterrupt, c\<lparr> ct_is_aborting := True \<rparr>)"
| "call_step CountInterrupt c =
     (WakeStore, upd_ctl (\<lambda>k. k\<lparr> rc_cancelled := True \<rparr>) (c\<lparr> ct_interrupt_seq := ct_interrupt_seq c + 1 \<rparr>))"
| "call_step Returned c = (Returned, c)"

fun call_run :: "nat \<Rightarrow> call \<Rightarrow> control \<Rightarrow> call \<times> control" where
  "call_run 0 a c = (a, c)"
| "call_run (Suc n) a c = (case call_step a c of (b, c1) \<Rightarrow> call_run n b c1)"

text \<open>Uninterrupted, the calls are the operations of \<open>Control\<close>.\<close>

lemma call_runs:
  "call_run 1 DeferStore c = (Returned, pause True c)"
  "call_run 4 PauseManual c = (Returned, pause False c)"
  "call_run 6 (SuspendStore su) c
     = (SuspendSpawn (fst (ctl_request_suspend su (ct_ctl c))), upd_ctl (\<lambda>k. snd (ctl_request_suspend su k)) c)"
  "call_run 5 (ReleaseGen g) c = (Returned, upd_ctl (release g) c)"
  "call_run 3 ResumeManual c = (Returned, resume c)"
  "call_run 6 (AbortReason r) c = (Returned, abort r c)"
  "call_run 6 (HaltReason r) c = (Returned, halt r c)"
  "call_run 5 StopFlag c = (Returned, stop c)"
  by (simp_all add: eval_nat_numeral request_defs ctl_defs split: bool.split)

section \<open>The entry of a run, one instruction at a time\<close>

datatype entry =
    Outside | EnterAborting | EnterHalting | EnterStopping | EnterThrown | EnterReason
  | ResetGen | ResetPaused | ResetManual | ResetHolds | ResetSuspension | ResetToken
  | EnterSeen | EnterDeferred | EnterSigint

record entering =
  er_control :: control
  er_thrown :: u64
  er_seen :: u64

fun entry_step :: "entry \<Rightarrow> entering \<Rightarrow> entry \<times> entering" where
  "entry_step Outside e = (Outside, e)"
| "entry_step EnterAborting e = (EnterHalting, e\<lparr> er_control := (er_control e)\<lparr> ct_is_aborting := False \<rparr> \<rparr>)"
| "entry_step EnterHalting e = (EnterStopping, e\<lparr> er_control := (er_control e)\<lparr> ct_is_halting := False \<rparr> \<rparr>)"
| "entry_step EnterStopping e = (EnterThrown, e\<lparr> er_control := (er_control e)\<lparr> ct_is_stopping := False \<rparr> \<rparr>)"
| "entry_step EnterThrown e = (EnterReason, e\<lparr> er_thrown := ct_interrupt_seq (er_control e) \<rparr>)"
| "entry_step EnterReason e = (ResetGen, e\<lparr> er_control := (er_control e)\<lparr> ct_interrupt_reason := '''' \<rparr> \<rparr>)"
| "entry_step ResetGen e =
     (ResetPaused, e\<lparr> er_control := upd_ctl (\<lambda>k. k\<lparr> rc_run_gen := rc_run_gen k + 1 \<rparr>) (er_control e) \<rparr>)"
| "entry_step ResetPaused e =
     (ResetManual, e\<lparr> er_control := upd_ctl (\<lambda>k. k\<lparr> rc_is_paused := False \<rparr>) (er_control e) \<rparr>)"
| "entry_step ResetManual e =
     (ResetHolds, e\<lparr> er_control := upd_ctl (\<lambda>k. k\<lparr> rc_manual_pause := False \<rparr>) (er_control e) \<rparr>)"
| "entry_step ResetHolds e =
     (ResetSuspension, e\<lparr> er_control := upd_ctl (\<lambda>k. k\<lparr> rc_holds := 0 \<rparr>) (er_control e) \<rparr>)"
| "entry_step ResetSuspension e =
     (ResetToken, e\<lparr> er_control := upd_ctl (\<lambda>k. k\<lparr> rc_pending_suspend := None \<rparr>) (er_control e) \<rparr>)"
| "entry_step ResetToken e =
     (EnterSeen, e\<lparr> er_control := upd_ctl (\<lambda>k. k\<lparr> rc_cancelled := False \<rparr>) (er_control e) \<rparr>)"
| "entry_step EnterSeen e = (EnterDeferred, e\<lparr> er_seen := rc_pause_seq (ct_ctl (er_control e)) \<rparr>)"
| "entry_step EnterDeferred e = (EnterSigint, e\<lparr> er_control := (er_control e)\<lparr> ct_deferred_pause := False \<rparr> \<rparr>)"
| "entry_step EnterSigint e = (Outside, e\<lparr> er_control := (er_control e)\<lparr> ct_sigint_count := 0 \<rparr> \<rparr>)"

fun entry_run :: "nat \<Rightarrow> entry \<Rightarrow> entering \<Rightarrow> entry \<times> entering" where
  "entry_run 0 a e = (a, e)"
| "entry_run (Suc n) a e = (case entry_step a e of (b, e1) \<Rightarrow> entry_run n b e1)"

lemma entry_runs:
  "entry_run 14 EnterAborting e =
     (Outside, case begin_run (er_control e) of
        (thrown, seen, c) \<Rightarrow> e\<lparr> er_control := c, er_thrown := thrown, er_seen := seen \<rparr>)"
  by (simp add: eval_nat_numeral begin_run_def ctl_defs)

section \<open>The threads together\<close>

text \<open>\<open>th_calls\<close> are the calls made so far, each at its point; \<open>th_outstanding\<close> the generations of the
  suspensions whose future has not resolved. Two fields record what happened: \<open>th_missed\<close>, that a pause was
  counted after the run's token was renewed and before the loop loaded the count it starts from; \<open>th_raced\<close>,
  that a call overlapped \<open>reset_for_run\<close>, or that a \<open>resume\<close> cleared \<open>manual_pause\<close> between the two stores of a
  \<open>pause\<close>.\<close>

record threads =
  th_entering :: entering
  th_calls :: "call list"
  th_outstanding :: "u64 multiset"
  th_entry :: entry
  th_missed :: bool
  th_raced :: bool

abbreviation th_control :: "threads \<Rightarrow> control" where
  "th_control s \<equiv> er_control (th_entering s)"

abbreviation th_ctl :: "threads \<Rightarrow> RunControl" where
  "th_ctl s \<equiv> ct_ctl (th_control s)"

definition set_control :: "control \<Rightarrow> threads \<Rightarrow> threads" where
  "set_control c s = s\<lparr> th_entering := (th_entering s)\<lparr> er_control := c \<rparr> \<rparr>"

definition quiet :: "threads \<Rightarrow> bool" where
  "quiet s \<longleftrightarrow> set (th_calls s) \<subseteq> {Returned}"

definition resetting :: "entry \<Rightarrow> bool" where
  "resetting e \<longleftrightarrow> e \<in> {ResetPaused, ResetManual, ResetHolds}"

fun is_request :: "call \<Rightarrow> bool" where
  "is_request DeferStore = True"
| "is_request PauseManual = True"
| "is_request (SuspendStore su) = True"
| "is_request ResumeManual = True"
| "is_request (AbortReason r) = True"
| "is_request (HaltReason r) = True"
| "is_request StopFlag = True"
| "is_request _ = False"

fun spawned :: "call \<Rightarrow> u64 multiset" where
  "spawned (SuspendSpawn g) = {#g#}"
| "spawned _ = {#}"

fun is_count :: "call \<Rightarrow> bool" where
  "is_count (MarkCount go) = True"
| "is_count _ = False"

definition thread_step :: "nat \<Rightarrow> threads \<Rightarrow> threads" where
  "thread_step i s =
     (let a = th_calls s ! i; (b, c) = call_step a (th_control s)
      in (set_control c s)\<lparr>
           th_calls := (th_calls s)[i := b],
           th_outstanding := th_outstanding s + spawned a,
           th_missed := th_missed s \<or> is_count a \<and> th_entry s = EnterSeen,
           th_raced := th_raced s \<or> resetting (th_entry s) \<or> a = ResumeManual \<and> MarkStore None \<in> set (th_calls s) \<rparr>)"

text \<open>The counters are compared for equality only: a step of \<open>threads_step\<close> requires that they have not gone
  once around since the loop looked, and that no suspension of \<open>2 ^ 64\<close> runs ago is outstanding.\<close>

inductive threads_step :: "threads \<Rightarrow> threads \<Rightarrow> bool" where
  h_request: "is_request a \<Longrightarrow>
    threads_step s (s\<lparr> th_calls := th_calls s @ [a], th_raced := th_raced s \<or> resetting (th_entry s) \<rparr>)"
| h_resolve: "g \<in># th_outstanding s \<Longrightarrow>
    threads_step s (s\<lparr> th_calls := th_calls s @ [ReleaseGen g], th_outstanding := th_outstanding s - {#g#},
                       th_raced := th_raced s \<or> resetting (th_entry s) \<rparr>)"
| h_call: "i < length (th_calls s) \<Longrightarrow>
    (is_count (th_calls s ! i) \<longrightarrow> rc_pause_seq (th_ctl s) + 1 \<noteq> er_seen (th_entering s)) \<Longrightarrow>
    (th_calls s ! i = CountInterrupt \<longrightarrow> ct_interrupt_seq (th_control s) + 1 \<noteq> er_thrown (th_entering s)) \<Longrightarrow>
    threads_step s (thread_step i s)"
| h_claim: "th_entry s = Outside \<Longrightarrow> claim_run (th_control s) = Ok c \<Longrightarrow>
    threads_step s ((set_control c s)\<lparr> th_entry := EnterAborting \<rparr>)"
| h_entry: "th_entry s \<noteq> Outside \<Longrightarrow> entry_step (th_entry s) (th_entering s) = (e, en) \<Longrightarrow>
    (th_entry s = ResetGen \<longrightarrow> rc_run_gen (th_ctl s) + 1 \<notin># th_outstanding s) \<Longrightarrow>
    threads_step s (s\<lparr> th_entry := e, th_entering := en,
                       th_missed := th_missed s \<and> th_entry s \<noteq> ResetToken,
                       th_raced := th_raced s \<or> th_entry s = ResetGen \<and> \<not> quiet s \<rparr>)"
| h_take: "th_entry s = Outside \<Longrightarrow> take_interrupt (er_thrown (th_entering s)) (th_control s) = (r, seq, c) \<Longrightarrow>
    threads_step s (s\<lparr> th_entering := (th_entering s)\<lparr> er_control := c, er_thrown := seq \<rparr> \<rparr>)"
| h_ack: "th_entry s = Outside \<Longrightarrow> ack_pause (er_seen (th_entering s)) (th_control s) = (seq, c) \<Longrightarrow>
    threads_step s (s\<lparr> th_entering := (th_entering s)\<lparr> er_control := c, er_seen := seq \<rparr> \<rparr>)"
| h_end: "th_entry s = Outside \<Longrightarrow> threads_step s (set_control (end_run (th_control s)) s)"

definition threads_new :: threads where
  "threads_new = \<lparr> th_entering = \<lparr> er_control = control_new, er_thrown = 0, er_seen = 0 \<rparr>, th_calls = [],
     th_outstanding = {#}, th_entry = Outside, th_missed = False, th_raced = False \<rparr>"

interpretation th: transition_system "\<lambda>s. s = threads_new" threads_step .
section \<open>Cancellations are explained\<close>

definition before_token :: "entry \<Rightarrow> bool" where
  "before_token e \<longleftrightarrow> e \<in> {EnterAborting, EnterHalting, EnterStopping, EnterThrown, EnterReason, ResetGen, ResetPaused,
     ResetManual, ResetHolds, ResetSuspension, ResetToken}"

definition explained :: "threads \<Rightarrow> bool" where
  "explained s \<longleftrightarrow>
     rc_cancelled (th_ctl s) \<and> \<not> before_token (th_entry s) \<longrightarrow>
       th_missed s
       \<or> interrupt_pending (er_thrown (th_entering s)) (th_control s)
       \<or> pause_pending (er_seen (th_entering s)) (th_control s) \<and> th_entry s \<noteq> EnterSeen"

lemmas explained_defs = explained_def before_token_def pause_pending_def interrupt_pending_def upd_ctl_def

lemma call_explained:
  assumes "explained s" and "call_step a (th_control s) = (b, c)"
    and "is_count a \<longrightarrow> rc_pause_seq (th_ctl s) + 1 \<noteq> er_seen (th_entering s)"
    and "a = CountInterrupt \<longrightarrow> ct_interrupt_seq (th_control s) + 1 \<noteq> er_thrown (th_entering s)"
  shows "explained ((set_control c s)\<lparr> th_calls := cs, th_outstanding := os,
           th_missed := th_missed s \<or> is_count a \<and> th_entry s = EnterSeen, th_raced := r \<rparr>)"
  using assms by (cases a) (auto simp: explained_defs set_control_def split: if_splits)

lemma explained_step: "threads_step s t \<Longrightarrow> explained s \<Longrightarrow> explained t"
proof (induction rule: threads_step.induct)
  case (h_request a s)
  then show ?case by (simp add: explained_defs)
next
  case (h_resolve g s)
  then show ?case by (simp add: explained_defs)
next
  case (h_call i s)
  then show ?case
    using call_explained [of s "th_calls s ! i" "fst (call_step (th_calls s ! i) (th_control s))"
        "snd (call_step (th_calls s ! i) (th_control s))"]
    by (simp add: thread_step_def case_prod_unfold Let_def)
next
  case (h_claim s c)
  then show ?case by (simp add: explained_defs)
next
  case (h_entry s e en)
  then show ?case by (cases "th_entry s") (auto simp: explained_defs)
next
  case (h_take s r seq c)
  then show ?case by (auto simp: explained_defs take_interrupt_def split: if_splits)
next
  case (h_ack s seq c)
  then show ?case by (auto simp: explained_defs ack_pause_def split: if_splits)
next
  case (h_end s)
  then show ?case by (simp add: explained_defs set_control_def end_run_def)
qed

lemma reach_explained: "th.reach s \<Longrightarrow> explained s"
proof (rule th.reach_invariant)
  show "s = threads_new \<Longrightarrow> explained s" for s
    by (simp add: explained_def threads_new_def control_new_def ctl_new_def)
qed (auto intro: explained_step)

section \<open>Pauses end\<close>

text \<open>The holds a call in progress has counted and not given back.\<close>

fun hold_of :: "u64 \<Rightarrow> call \<Rightarrow> nat" where
  "hold_of g SuspendGen = 1"
| "hold_of g (MarkStore (Some h)) = 1"
| "hold_of g (MarkCount (Some h)) = 1"
| "hold_of g (MarkNotify (Some h)) = 1"
| "hold_of g (SuspendSpawn h) = 1"
| "hold_of g (ReleaseGen h) = of_bool (h = g)"
| "hold_of g ReleaseHold = 1"
| "hold_of g _ = 0"

fun holds_in :: "u64 \<Rightarrow> call list \<Rightarrow> nat" where
  "holds_in g [] = 0"
| "holds_in g (a # calls) = hold_of g a + holds_in g calls"

lemma holds_in_append [simp]: "holds_in g (l @ r) = holds_in g l + holds_in g r"
  by (induction l) auto

text \<open>The generation a suspension in progress has loaded.\<close>

fun loaded :: "call \<Rightarrow> u64 option" where
  "loaded (MarkStore go) = go"
| "loaded (MarkCount go) = go"
| "loaded (MarkNotify go) = go"
| "loaded (SuspendSpawn g) = Some g"
| "loaded _ = None"

text \<open>\<open>held\<close>: the holds are those of outstanding suspensions and of calls in progress, a paused engine has a hold, a
  user's pause or a wake on the way, and a \<open>pause\<close> between its two stores has set \<open>manual_pause\<close>.\<close>

definition held :: "u64 multiset \<Rightarrow> call list \<Rightarrow> RunControl \<Rightarrow> bool" where
  "held os calls k \<longleftrightarrow>
     rc_holds k = count os (rc_run_gen k) + holds_in (rc_run_gen k) calls
     \<and> (rc_is_paused k \<longrightarrow>
          rc_manual_pause k \<or> 0 < count os (rc_run_gen k) + holds_in (rc_run_gen k) calls \<or> ReleaseManual \<in> set calls \<or> WakeStore \<in> set calls)
     \<and> (MarkStore None \<in> set calls \<longrightarrow> rc_manual_pause k)
     \<and> (\<forall>a\<in>set calls. loaded a \<in> {None, Some (rc_run_gen k)})"

definition pause_inv :: "threads \<Rightarrow> bool" where
  "pause_inv s \<longleftrightarrow>
     th_raced s
     \<or> (if resetting (th_entry s)
        then quiet s \<and> rc_run_gen (th_ctl s) \<notin># th_outstanding s
             \<and> (th_entry s \<noteq> ResetPaused \<longrightarrow> \<not> rc_is_paused (th_ctl s))
        else held (th_outstanding s) (th_calls s) (th_ctl s))"

lemma quiet_holds: "set calls \<subseteq> {Returned} \<Longrightarrow> holds_in g calls = 0"
  by (induction calls) auto

lemma split_at_nth: "i < length xs \<Longrightarrow> \<exists>l r. xs = l @ xs ! i # r \<and> (\<forall>b. xs[i := b] = l @ b # r)"
  by (intro exI [of _ "take i xs"] exI [of _ "drop (Suc i) xs"]) (simp add: id_take_nth_drop upd_conv_take_nth_drop)

lemma call_held:
  assumes "held os (l @ a # r) (ct_ctl c)" and "call_step a c = (b, c')"
    and "a = ResumeManual \<longrightarrow> MarkStore None \<notin> set (l @ a # r)"
  shows "held (os + spawned a) (l @ b # r) (ct_ctl c')"
proof -
  have bc: "b = fst (call_step a c)" "c' = snd (call_step a c)" using assms(2) by simp_all
  show ?thesis
  proof (cases a)
  case (MarkStore go)
  then show ?thesis using assms by (cases go) (simp_all add: held_def upd_ctl_def, auto simp: count_eq_zero_iff)
next
  case (MarkCount go)
  then show ?thesis using assms by (cases go) (simp_all add: held_def upd_ctl_def, auto simp: count_eq_zero_iff)
next
  case (MarkNotify go)
  then show ?thesis using assms by (cases go) (simp_all add: held_def upd_ctl_def, auto simp: count_eq_zero_iff)
next
  case ReleaseHold
  show ?thesis
  proof (cases "rc_holds (ct_ctl c) \<le> 1")
    case True
    then have "b = ReleaseManual" "c' = upd_ctl (\<lambda>k. k\<lparr> rc_holds := rc_holds k - 1 \<rparr>) c" using assms(2) ReleaseHold by auto
    then show ?thesis using assms(1) ReleaseHold by (simp add: held_def upd_ctl_def)
  next
    case False
    then have "b = Returned" "c' = upd_ctl (\<lambda>k. k\<lparr> rc_holds := rc_holds k - 1 \<rparr>) c" using assms(2) ReleaseHold by auto
    moreover from this have "0 < rc_holds (ct_ctl c')" using False by (simp add: upd_ctl_def)
    ultimately show ?thesis using assms(1) ReleaseHold by (simp add: held_def upd_ctl_def, (blast)?)
  qed
next
  case ReleaseManual
  then show ?thesis using assms by (simp add: held_def upd_ctl_def split: if_splits, (auto simp: count_eq_zero_iff)?)
next
  case (ReleaseGen g)
  then show ?thesis using assms by (simp add: held_def upd_ctl_def split: if_splits, (auto simp: count_eq_zero_iff)?)
next
  case ResumeManual
  then show ?thesis using assms by (simp add: held_def upd_ctl_def) (auto simp: count_eq_zero_iff)
next
  case (SuspendSpawn g)
  then have "g = rc_run_gen (ct_ctl c)" using assms(1) by (simp add: held_def)
  then show ?thesis using assms SuspendSpawn by (simp add: held_def)
qed (use assms(1) bc in \<open>simp_all add: held_def upd_ctl_def\<close>)
qed

lemma held_irrelevant [simp]:
  "held os calls (k\<lparr> rc_is_running := b \<rparr>) = held os calls k"
  "held os calls (k\<lparr> rc_cancelled := b \<rparr>) = held os calls k"
  "held os calls (k\<lparr> rc_pending_suspend := x \<rparr>) = held os calls k"
  by (simp_all add: held_def)

lemma quiet_held:
  assumes "quiet s" and "rc_holds k = count (th_outstanding s) (rc_run_gen k)" and "\<not> rc_is_paused k"
  shows "held (th_outstanding s) (th_calls s) k"
  using assms quiet_holds by (auto simp: held_def quiet_def)

lemma pause_inv_step: "threads_step s t \<Longrightarrow> pause_inv s \<Longrightarrow> pause_inv t"
proof (induction rule: threads_step.induct)
  case (h_request a s)
  then show ?case by (cases a) (auto simp: pause_inv_def held_def)
next
  case (h_resolve g s)
  then show ?case by (auto simp: pause_inv_def held_def)
next
  case (h_call i s)
  let ?a = "th_calls s ! i" and ?t = "thread_step i s"
  obtain l r where l: "th_calls s = l @ ?a # r" "\<And>b. (th_calls s)[i := b] = l @ b # r"
    using split_at_nth [OF h_call(1)] by blast
  obtain b c where step: "call_step ?a (th_control s) = (b, c)" by fastforce
  have t: "th_calls ?t = l @ b # r" "th_outstanding ?t = th_outstanding s + spawned ?a" "th_ctl ?t = ct_ctl c"
    "th_entry ?t = th_entry s"
    "th_raced ?t \<longleftrightarrow> th_raced s \<or> resetting (th_entry s) \<or> ?a = ResumeManual \<and> MarkStore None \<in> set (th_calls s)"
    by (simp_all add: thread_step_def step l(2) set_control_def Let_def)
  show ?case
  proof (cases "th_raced ?t")
    case False
    then have "held (th_outstanding s) (l @ ?a # r) (th_ctl s)" using h_call(4) t(5) l(1) by (simp add: pause_inv_def)
    moreover have "?a = ResumeManual \<longrightarrow> MarkStore None \<notin> set (l @ ?a # r)" using False t(5) l(1) by metis
    ultimately have "held (th_outstanding ?t) (th_calls ?t) (th_ctl ?t)"
      unfolding t(1-3) by (intro call_held [OF _ step])
    then show ?thesis using False t(4,5) by (simp add: pause_inv_def)
  qed (simp add: pause_inv_def)
next
  case (h_claim s c)
  then show ?case
    by (auto simp: pause_inv_def resetting_def set_control_def claim_run_def upd_ctl_def split: if_splits)
next
  case (h_entry s e en)
  then show ?case
  proof (cases "th_entry s")
    case ResetHolds
    then show ?thesis
      using h_entry by (auto simp: pause_inv_def resetting_def upd_ctl_def count_eq_zero_iff intro!: quiet_held)
  qed (use h_entry in \<open>auto simp: pause_inv_def resetting_def quiet_def upd_ctl_def\<close>)
next
  case (h_take s r seq c)
  then show ?case
    by (auto simp: pause_inv_def resetting_def take_interrupt_def upd_ctl_def split: if_splits)
next
  case (h_ack s seq c)
  then show ?case
    by (auto simp: pause_inv_def resetting_def ack_pause_def upd_ctl_def split: if_splits)
next
  case (h_end s)
  then show ?case
    by (auto simp: pause_inv_def resetting_def set_control_def end_run_def upd_ctl_def)
qed

lemma reach_pause_inv: "th.reach s \<Longrightarrow> pause_inv s"
proof (rule th.reach_invariant)
  show "s = threads_new \<Longrightarrow> pause_inv s" for s
    by (simp add: pause_inv_def resetting_def held_def threads_new_def control_new_def ctl_new_def)
qed (auto intro: pause_inv_step)
section \<open>Schedules\<close>

text \<open>A concrete interleaving is a list of actions; \<open>Run i\<close> is the next instruction of the \<open>i\<close>-th call.\<close>

datatype turn = Request call | Resolve u64 | Run nat | Claim | Enter

fun turn_step :: "turn \<Rightarrow> threads \<Rightarrow> threads option" where
  "turn_step (Request a) s =
     (if is_request a
      then Some (s\<lparr> th_calls := th_calls s @ [a], th_raced := th_raced s \<or> resetting (th_entry s) \<rparr>) else None)"
| "turn_step (Resolve g) s =
     (if g \<in># th_outstanding s
      then Some (s\<lparr> th_calls := th_calls s @ [ReleaseGen g], th_outstanding := th_outstanding s - {#g#},
                    th_raced := th_raced s \<or> resetting (th_entry s) \<rparr>) else None)"
| "turn_step (Run i) s =
     (if i < length (th_calls s)
         \<and> \<not> (is_count (th_calls s ! i) \<and> rc_pause_seq (th_ctl s) + 1 = er_seen (th_entering s))
         \<and> \<not> (th_calls s ! i = CountInterrupt \<and> ct_interrupt_seq (th_control s) + 1 = er_thrown (th_entering s))
      then Some (thread_step i s) else None)"
| "turn_step Claim s =
     (if th_entry s = Outside
      then (case claim_run (th_control s) of
              Ok c \<Rightarrow> Some ((set_control c s)\<lparr> th_entry := EnterAborting \<rparr>) | _ \<Rightarrow> None)
      else None)"
| "turn_step Enter s =
     (if th_entry s \<noteq> Outside \<and> \<not> (th_entry s = ResetGen \<and> rc_run_gen (th_ctl s) + 1 \<in># th_outstanding s)
      then (case entry_step (th_entry s) (th_entering s) of
              (e, en) \<Rightarrow> Some (s\<lparr> th_entry := e, th_entering := en,
                       th_missed := th_missed s \<and> th_entry s \<noteq> ResetToken,
                       th_raced := th_raced s \<or> th_entry s = ResetGen \<and> \<not> quiet s \<rparr>))
      else None)"

fun schedule :: "turn list \<Rightarrow> threads \<Rightarrow> threads option" where
  "schedule [] s = Some s"
| "schedule (a # as) s = (case turn_step a s of None \<Rightarrow> None | Some t \<Rightarrow> schedule as t)"

lemma turn_step_sound:
  assumes "turn_step a s = Some t"
  shows "threads_step s t"
proof (cases a)
  case (Request x)
  then show ?thesis using assms by (auto intro: h_request split: if_splits)
next
  case (Resolve g)
  then show ?thesis using assms by (auto intro: h_resolve split: if_splits)
next
  case (Run i)
  then show ?thesis using assms h_call [of i s] by (simp split: if_splits)
next
  case Claim
  then show ?thesis using assms by (auto intro: h_claim split: if_splits outcome.splits)
next
  case Enter
  then show ?thesis using assms h_entry [of s] by (auto split: if_splits prod.splits)
qed

lemma schedule_reach: "schedule as s = Some t \<Longrightarrow> th.reach s \<Longrightarrow> th.reach t"
proof (induction as arbitrary: s)
  case (Cons a as)
  then obtain s1 where "turn_step a s = Some s1" "schedule as s1 = Some t" by (auto split: option.splits)
  then show ?case using Cons turn_step_sound th.reach_step by blast
qed simp

lemma new_reach: "th.reach threads_new"
  by (rule th.reach_init) simp

text \<open>A run that has begun, a call that runs alone, a suspension of the first run with its future outstanding.\<close>

definition begun :: "turn list" where
  "begun = Claim # replicate 14 Enter"

definition suspension :: Suspension where
  "suspension = \<lparr> su_justification = ''beam dump'', su_pre_plan = None, su_post_plan = None \<rparr>"

definition final :: "turn list \<Rightarrow> threads" where
  "final as = the (schedule as threads_new)"

lemma final_reach: "schedule as threads_new \<noteq> None \<Longrightarrow> th.reach (final as)"
  unfolding final_def using schedule_reach new_reach by (metis option.exhaust_sel)

definition suspended :: "turn list" where
  "suspended = begun @ Request (SuspendStore suspension) # replicate 7 (Run 0)"

lemma suspended_runs: "schedule suspended threads_new \<noteq> None"
  by code_simp

lemma suspended_state:
  "rc_is_paused (th_ctl (final suspended)) \<and> quiet (final suspended) \<and> th_entry (final suspended) = Outside
   \<and> \<not> th_raced (final suspended) \<and> \<not> th_missed (final suspended) \<and> th_outstanding (final suspended) = {#1#}
   \<and> rc_run_gen (th_ctl (final suspended)) = 1 \<and> rc_cancelled (th_ctl (final suspended))"
  by code_simp
section \<open>The properties\<close>

text \<open>C20. Every pause has an end in sight, whatever requests, releases and acknowledgements overlapped. In every
  state the threads can reach in which no call is in progress and no run is being entered, unless a call overlapped
  \<open>reset_for_run\<close> or a \<open>resume\<close> fell between the two stores of a \<open>pause\<close>: the holds are the suspensions of this run
  whose future is outstanding, a paused engine is held by the user or by one of them, and, without
  a user's pause, releasing them one after the other keeps a paused engine paused until the last of them,
  which wakes it. Releases left over from earlier runs change nothing.\<close>

theorem suspensions_wake_on_last_release:
  assumes "th.reach s" and "quiet s" and "th_entry s = Outside" and "\<not> th_raced s"
    and "k = th_ctl s" and "g = rc_run_gen k"
  shows "rc_holds k = count (th_outstanding s) g
    \<and> (rc_is_paused k \<longrightarrow> rc_manual_pause k \<or> g \<in># th_outstanding s)
    \<and> (\<not> rc_manual_pause k \<longrightarrow> \<not> rc_is_paused ((release g ^^ count (th_outstanding s) g) k))
    \<and> (\<forall>n. rc_is_paused k \<longrightarrow> n < count (th_outstanding s) g \<longrightarrow> rc_is_paused ((release g ^^ n) k))
    \<and> (\<forall>old. old \<noteq> g \<longrightarrow> release old k = k)"
proof -
  have calls: "set (th_calls s) \<subseteq> {Returned}" using assms(2) by (simp add: quiet_def)
  have inv: "held (th_outstanding s) (th_calls s) k"
    using reach_pause_inv [OF assms(1)] assms(3-5) by (simp add: pause_inv_def resetting_def)
  have holds: "rc_holds k = count (th_outstanding s) g"
    using inv quiet_holds [OF calls] assms(6) by (simp add: held_def)
  have paused: "rc_is_paused k \<longrightarrow> rc_manual_pause k \<or> 0 < rc_holds k"
    using inv quiet_holds [OF calls] calls assms(6) holds by (auto simp: held_def)
  have "rc_is_paused k \<longrightarrow> rc_manual_pause k \<or> g \<in># th_outstanding s" using paused holds by auto
  moreover have "\<not> rc_manual_pause k \<longrightarrow> \<not> rc_is_paused ((release g ^^ count (th_outstanding s) g) k)"
    using holds paused releases(4) [OF assms(6), of "count (th_outstanding s) g"] by auto
  moreover have "\<forall>n. rc_is_paused k \<longrightarrow> n < count (th_outstanding s) g \<longrightarrow> rc_is_paused ((release g ^^ n) k)"
    using holds releases(4) [OF assms(6)] by auto
  moreover have "\<forall>old. old \<noteq> g \<longrightarrow> release old k = k" using assms(6) by (simp add: release_def)
  ultimately show ?thesis using holds by blast
qed

theorem suspensions_wake_on_last_release_witness:
  "rc_is_paused (th_ctl (final suspended)) \<and> \<not> rc_is_paused (release 1 (th_ctl (final suspended)))"
proof -
  have "\<not> rc_manual_pause (th_ctl (final suspended))" by code_simp
  then show ?thesis
    using suspensions_wake_on_last_release [OF final_reach [OF suspended_runs] _ _ _ refl refl] suspended_state
    by simp
qed

text \<open>C21. The run loop can explain every cancellation, whatever calls overlap, instruction by instruction: while it
  runs, a cancelled token means that a pause or an interrupt request is outstanding that the loop has not
  acknowledged, unless a pause was counted, as the run was entered, between the renewal of the token and the load of the
  count the loop starts from.\<close>

theorem cancelled_token_explained:
  assumes "th.reach s" and "th_entry s = Outside" and "rc_cancelled (th_ctl s)" and "\<not> th_missed s"
  shows "pause_pending (er_seen (th_entering s)) (th_control s)
       \<or> fst (take_interrupt (er_thrown (th_entering s)) (th_control s)) \<noteq> None"
  using reach_explained [OF assms(1)] assms(2-4)
  by (auto simp: explained_def before_token_def interrupt_pending_def take_interrupt_def)

theorem cancelled_token_explained_witness:
  "rc_cancelled (th_ctl (final suspended))
   \<and> pause_pending (er_seen (th_entering (final suspended))) (th_control (final suspended))"
proof -
  have "fst (take_interrupt (er_thrown (th_entering (final suspended))) (th_control (final suspended))) = None"
    by code_simp
  then show ?thesis
    using cancelled_token_explained [OF final_reach [OF suspended_runs]] suspended_state by simp
qed

text \<open>The points of the calls that lift a pause, and the steps in which nobody makes such a call.\<close>

fun lifts :: "call \<Rightarrow> bool" where
  "lifts ResumeManual = True"
| "lifts WakeStore = True"
| "lifts (AbortReason r) = True"
| "lifts AbortFlag = True"
| "lifts AbortStopping = True"
| "lifts (HaltReason r) = True"
| "lifts HaltFlag = True"
| "lifts HaltAborting = True"
| "lifts StopFlag = True"
| "lifts StopAborting = True"
| "lifts CountInterrupt = True"
| "lifts _ = False"

definition hold_step :: "threads \<Rightarrow> threads \<Rightarrow> bool" where
  "hold_step s t \<longleftrightarrow>
     threads_step s t \<and> th_entry s = Outside \<and> th_entry t = Outside
     \<and> (\<forall>a. th_calls t = th_calls s @ [a] \<longrightarrow> \<not> lifts a)"

definition user_paused :: "threads \<Rightarrow> bool" where
  "user_paused s \<longleftrightarrow>
     rc_manual_pause (th_ctl s) \<and> rc_is_paused (th_ctl s) \<and> (\<forall>a\<in>set (th_calls s). \<not> lifts a)"

lemma call_user_paused:
  assumes "call_step a c = (b, c')" and "\<not> lifts a" and "rc_manual_pause (ct_ctl c)" and "rc_is_paused (ct_ctl c)"
  shows "\<not> lifts b \<and> rc_manual_pause (ct_ctl c') \<and> rc_is_paused (ct_ctl c')"
  using assms by (cases a) (auto simp: upd_ctl_def split: if_splits option.splits)

lemma hold_step_user_paused:
  assumes "hold_step s t" and "user_paused s"
  shows "user_paused t"
proof -
  have "threads_step s t" using assms(1) by (simp add: hold_step_def)
  then show ?thesis
  proof cases
    case (h_call i)
    obtain b c where step: "call_step (th_calls s ! i) (th_control s) = (b, c)" by fastforce
    have "\<not> lifts (th_calls s ! i)" using assms(2) h_call(2) by (simp add: user_paused_def)
    from call_user_paused [OF step this] assms(2)
    have "\<not> lifts b \<and> rc_manual_pause (ct_ctl c) \<and> rc_is_paused (ct_ctl c)" by (simp add: user_paused_def)
    then show ?thesis
      using assms(2) unfolding h_call(1)
      by (auto simp: user_paused_def thread_step_def step set_control_def Let_def dest: set_update_subset_insert [THEN subsetD])
  qed (use assms in \<open>auto simp: user_paused_def hold_step_def set_control_def claim_run_def take_interrupt_def
         ack_pause_def end_run_def upd_ctl_def split: if_splits\<close>)
qed

text \<open>C36. A pause the user asked for is lifted by no suspension: once \<open>pause\<close> has returned, with no call in progress
  that is about to wake the engine, the engine stays paused through every interleaving of pauses, suspensions, releases
  and acknowledgements, as long as nobody calls \<open>resume\<close>, \<open>abort\<close>, \<open>halt\<close> or \<open>stop\<close> and no new run is
  entered; a \<open>resume\<close> then lifts it at once.\<close>

theorem manual_pause_outlives_suspensions:
  assumes "user_paused s" and "rtranclp hold_step s t"
  shows "rc_is_paused (th_ctl t) \<and> rc_manual_pause (th_ctl t) \<and> \<not> rc_is_paused (ct_ctl (resume (th_control t)))"
proof -
  have "user_paused t"
    using assms(2,1) by (induction rule: rtranclp_induct) (auto intro: hold_step_user_paused)
  then show ?thesis by (simp add: user_paused_def resume_def ctl_defs)
qed
text \<open>A schedule of calls in progress and resolving futures consists of such steps.\<close>

fun keeps_hold :: "turn \<Rightarrow> bool" where
  "keeps_hold (Resolve g) = True"
| "keeps_hold (Run i) = True"
| "keeps_hold _ = False"

lemma act_hold_step:
  assumes "turn_step a s = Some t" and "keeps_hold a" and "th_entry s = Outside"
  shows "hold_step s t \<and> th_entry t = Outside"
proof -
  have "th_entry t = Outside" using assms by (cases a) (auto simp: thread_step_def set_control_def Let_def case_prod_unfold split: if_splits)
  moreover have "\<not> lifts x" if "th_calls t = th_calls s @ [x]" for x
  proof (cases a)
    case (Run i)
    then have "length (th_calls t) = length (th_calls s)"
      using assms(1) by (auto simp: thread_step_def Let_def case_prod_unfold split: if_splits)
    then show ?thesis using that by simp
  qed (use assms that in \<open>auto split: if_splits\<close>)
  ultimately show ?thesis using turn_step_sound [OF assms(1)] assms(3) by (simp add: hold_step_def)
qed

lemma schedule_hold:
  "schedule as s = Some t \<Longrightarrow> list_all keeps_hold as \<Longrightarrow> th_entry s = Outside \<Longrightarrow> rtranclp hold_step s t"
proof (induction as arbitrary: s)
  case (Cons a as)
  then obtain s1 where s1: "turn_step a s = Some s1" "schedule as s1 = Some t" by (auto split: option.splits)
  then have "hold_step s s1 \<and> th_entry s1 = Outside" using act_hold_step Cons.prems by simp
  moreover have "rtranclp hold_step s1 t" using Cons.IH [OF s1(2)] Cons.prems(2) calculation by simp
  ultimately show ?case by (blast intro: converse_rtranclp_into_rtranclp)
qed simp

definition user_pause :: "turn list" where
  "user_pause = Request PauseManual # replicate 4 (Run 1)"

definition release_alone :: "turn list" where
  "release_alone = Resolve 1 # replicate 5 (Run 2)"

theorem manual_pause_outlives_suspensions_witness:
  "\<exists>t. schedule release_alone (final (suspended @ user_pause)) = Some t \<and> rc_is_paused (th_ctl t)"
proof -
  let ?s = "final (suspended @ user_pause)"
  have up: "user_paused ?s" by code_simp
  have "schedule release_alone ?s \<noteq> None" by code_simp
  then obtain t where t: "schedule release_alone ?s = Some t" by blast
  have "list_all keeps_hold release_alone" "th_entry ?s = Outside" by code_simp+
  then have "rtranclp hold_step ?s t" using schedule_hold [OF t] by blast
  then show ?thesis using t manual_pause_outlives_suspensions [OF up] by blast
qed

section \<open>Races\<close>


end
