(* ===== verification/Spec2Isabelle.thy ===== *)
theory Spec2Isabelle
  imports Pages Manager_State Task_Slot Plan_Queue Engine_Props Status_Conjunction Subscriptions Suspenders Plan_Traces
    Control_Threads
begin

text \<open>
  A model of \<open>bsrs\<close>, a Rust data-acquisition engine in the tradition of bluesky, and the theorems that
  make it correct. All paths are below \<open>src/crates/bsrs/src/\<close>.

  \<^bold>\<open>The program.\<close> A plan is an asynchronous stream of messages (\<open>core/msg.rs\<close>, \<open>core/plan.rs\<close>). The \<open>RunEngine\<close>
  (\<open>engine/run_engine.rs\<close>) pulls one message at a time, dispatches it to a handler that drives devices and
  emits documents (\<open>event_model/\<close>), and answers the plan. Each open run has a bundler (\<open>engine/bundler.rs\<close>) that
  turns readings into descriptors and events through a document composer (\<open>event_model/compose.rs\<close>).
  Other tasks pause, resume, suspend, abort, halt or stop the engine through its control plane; installed
  suspenders (\<open>engine/suspender.rs\<close>) watch a fan-out of values (\<open>core/subscription.rs\<close>) and do so on their
  own. Handlers wait on \<open>Status\<close> cells (\<open>core/status.rs\<close>). A queue server (\<open>qs/\<close>) keeps a queue of plans and
  a slot for the task that executes them.

  \<^bold>\<open>Theories.\<close>
  \<^item> \<open>Prelude\<close>: machine types, association lists as the source's maps with their laws (the locale
    \<open>dictionary\<close>), lists, decimal numerals, reachability (the locale \<open>transition_system\<close>), the
    collections \<open>hmap_simps\<close> and \<open>preserved\<close>.
  \<^item> \<open>Documents\<close> (\<open>event_model/documents.rs\<close>, \<open>core/error.rs\<close>): the event model as records and datatypes, errors as
    values. \<open>Pages\<close> (\<open>event_model/page.rs\<close>): transposing rows and columns; packing and unpacking are inverse, merging
    and rechunking keep the rows.
  \<^item> \<open>Compose\<close> (\<open>event_model/compose.rs\<close>): \<open>RunBundle\<close>, its sequence counters on 64 bit words, resources and datums.
    \<open>Bundler\<close> (\<open>engine/bundler.rs\<close>): open bundles, descriptor generations, checkpoint and rewind, with the invariant that the
    descriptor caches agree, kept by every operation and hence in every reachable state.
  \<^item> \<open>Messages\<close>, \<open>Control\<close>, \<open>Assets\<close>, \<open>Engine\<close>, \<open>Handlers\<close>, \<open>RunLoop\<close> (\<open>engine/run_engine.rs\<close>): the message type,
    the control plane as a transition system of requests and acknowledgements, the packing of external assets, the
    engine record with its state-and-outcome monad, one definition per message verb, and the loop with
    its pause gate, rewind and cleanup, up to \<open>run_async\<close> and \<open>run_async_with\<close>.
  \<^item> \<open>Engine_Laws\<close>, \<open>Run_Ledger\<close>, \<open>Engine_Props\<close>, \<open>Scenario\<close>: the calculus of the monad (\<open>keeps\<close>, \<open>leads\<close>; the locale
    \<open>request_frame\<close> lifts a view that requests and effects leave alone over every await point), the pairing of start
    and stop documents over whole calls, the error paths, rewind, metadata and cleanup, and a concrete environment in
    which the witnesses run.
  \<^item> \<open>Status\<close>, \<open>Status_Conjunction\<close> (\<open>core/status.rs\<close>): completion cells in a heap, the callbacks they run as an explicit
    stack, and the conjunction of two statuses, with an invariant of heap and stack.
  \<^item> \<open>Subscriptions\<close> (\<open>core/subscription.rs\<close>), \<open>Suspenders\<close> (\<open>engine/suspender.rs\<close>): the fan-out of a producer to a queue per
    listener; when a watched signal suspends the engine and when it lets it go.
  \<^item> \<open>Plan_Queue\<close>, \<open>Task_Slot\<close>, \<open>Manager_State\<close> (\<open>qs/queue.rs\<close>, \<open>qs/task_slot.rs\<close>, \<open>qs/state.rs\<close>): the queue and its history with
    their version uids, the claim protocol of the worker slot, the manager's state, lock and timestamps.

  \<^bold>\<open>What is abstract.\<close> The behaviour of devices, hooks, sinks, the clock, fresh identifiers and the other
  tasks is the record \<open>world\<close>: functions of the effects so far, which every theorem about the engine quantifies over.
  A request of another task happens at an await point of the handler that is running, as it does on
  the source's executor. A plan is a codatatype: what it yields may depend on every answer and thrown error. A wait may
  resolve, fail, time out or last for ever. Panics and waits that last for ever are outcomes of
  their own, beside results and errors.

  \<^bold>\<open>Fuel and bounds.\<close> A plan may be infinite, so \<open>run_loop\<close>, the pause gate and \<open>run_async\<close> take fuel, and running out of it is
  the outcome \<open>Hang\<close>, which also stands for a wait that never ends and is no result: a theorem about a call that returns is about a call with enough
  fuel, and the witnesses exhibit one. Every other loop is a terminating function. Counters of the
  source that wrap are 64 bit words; hash maps whose order the code does not use are association lists. Time in \<open>Suspenders\<close>
  is in timer ticks, and \<open>episodes\<close> is indexed by the number of rounds, which a theorem bounds by the number of posts.

  \<^bold>\<open>What the theorems show.\<close> Every run that a returning call opened is stopped, once, whatever the plan, the devices and the
  other tasks do; illegal messages are refused before anything happens; metadata layers override in the documented
  order; a resume replays what was cached and sequence numbers are restored; a suspension is woken by its last release and never over
  a manual pause; the cancel token is always explained by a pending request; a status is finished once and runs
  each callback once, and a conjunction follows its parts; a listener gets every value once and in order; every bad
  value suspends and a run resumes only on a settled signal; the queue's uid changes with its contents; no
  worker of the queue is ever untracked. Several theorems state what the code does where a comment or a doc
  promises something else; they are listed as findings of the development.

  \<^bold>\<open>Not modelled.\<close> Network and file transports, serialisation derived by macros, the EPICS, Lua and command-line
  front ends and the device implementations are input and output, or glue around libraries whose code is elsewhere. The plan library
  (\<open>plans/\<close>), the method handlers and permissions of the queue server (\<open>qs/dispatch.rs\<close>, \<open>qs/permissions.rs\<close>), the path
  providers and the optimiser bridge (\<open>blop/\<close>) are not modelled yet. The whole-plan timeout of the engine and its
  blocking wrapper are left out; interleavings of two threads inside one operation of a status are not modelled.
\<close>

end
